theory Spec2Isabelle
  imports Complex_Main "HOL-Library.Sublist" "HOL-Library.Multiset"
begin

section \<open>Python strings\<close>

text \<open>
  A Python \<open>str\<close> is a sequence of code points. The model's characters are the 256 code
  points below \<open>U+0100\<close> (type \<^typ>\<open>char\<close>), and the string operations below are
  Python's on that range: \<open>str.isspace\<close>, \<open>str.lower\<close>, \<open>str.strip\<close>, \<open>str.find\<close> and
  the operator \<open>in\<close>.
\<close>

definition py_isspace :: "char \<Rightarrow> bool" where
  "py_isspace c = (c \<in> set [CHR 0x09, CHR 0x0A, CHR 0x0B, CHR 0x0C, CHR 0x0D,
                               CHR 0x1C, CHR 0x1D, CHR 0x1E, CHR 0x1F, CHR '' '',
                               CHR 0x85, CHR 0xA0])"

definition py_isdigit :: "char \<Rightarrow> bool" where
  "py_isdigit c = (c \<in> set ''0123456789'')"

text \<open>
  \<open>str.lower\<close> on one code point: the capital letters \<open>A\<close> to \<open>Z\<close> and \<open>U+00C0\<close> to
  \<open>U+00DE\<close> (the multiplication sign \<open>U+00D7\<close> apart) move up by 32; every other code
  point below \<open>U+0100\<close> stays.
\<close>

definition lower_char :: "char \<Rightarrow> char" where
  "lower_char c = (let n = (of_char c :: nat) in
     if (65 \<le> n \<and> n \<le> 90) \<or> (192 \<le> n \<and> n \<le> 222 \<and> n \<noteq> 215)
     then char_of (n + 32) else c)"

definition lower :: "string \<Rightarrow> string" where
  "lower s = map lower_char s"

definition lstrip :: "string \<Rightarrow> string" where
  "lstrip s = dropWhile py_isspace s"

definition rstrip :: "string \<Rightarrow> string" where
  "rstrip s = rev (dropWhile py_isspace (rev s))"

definition strip :: "string \<Rightarrow> string" where
  "strip s = rstrip (lstrip s)"

text \<open>\<open>s.find(sub)\<close>: the lowest index at which \<open>sub\<close> occurs, \<open>None\<close> for Python's \<open>-1\<close>.\<close>

fun find_str :: "string \<Rightarrow> string \<Rightarrow> nat option" where
  "find_str [] sub = (if sub = [] then Some 0 else None)"
| "find_str (c # s) sub =
     (if prefix sub (c # s) then Some 0 else map_option Suc (find_str s sub))"

text \<open>\<open>sub in s\<close>.\<close>

definition contains :: "string \<Rightarrow> string \<Rightarrow> bool" where
  "contains s sub = (find_str s sub \<noteq> None)"


section \<open>Regular expressions\<close>

text \<open>
  The fragment of Python's \<open>re\<close> syntax that the repository uses: \<open>^\<close>, \<open>$\<close>, literal text,
  \<open>\s\<close>, \<open>\d\<close>, \<open>.\<close>, concatenation, \<open>|\<close>, greedy \<open>+\<close> and \<open>?\<close>, and a numbered capturing
  group. A match state is the position in the subject, the rest of the subject and the
  groups captured so far (latest first). \<open>rmatch\<close> lists the states in which a match
  of the expression from a state can end, in the order in which a backtracking matcher
  tries them; the head of the list is the match that \<open>re\<close> reports. The flag is
  \<open>re.IGNORECASE\<close>.
\<close>

datatype re = Bol | Eol | Lit string | Space | Digit | Dot
  | Seq re re | Alt re re | Plus re | Opt re | Grp nat re

type_synonym mstate = "nat \<times> string \<times> (nat \<times> string) list"

definition one_char :: "(char \<Rightarrow> bool) \<Rightarrow> mstate \<Rightarrow> mstate list" where
  "one_char P st = (case st of (i, s, g) \<Rightarrow>
     (case s of [] \<Rightarrow> [] | c # t \<Rightarrow> if P c then [(Suc i, t, g)] else []))"

function rmatch :: "bool \<Rightarrow> re \<Rightarrow> mstate \<Rightarrow> mstate list" where
  "rmatch ic Bol (i, s, g) = (if i = 0 then [(i, s, g)] else [])"
| "rmatch ic Eol (i, s, g) = (if s = [] \<or> s = [CHR 0x0A] then [(i, s, g)] else [])"
| "rmatch ic (Lit l) (i, s, g) =
     (let n = length l; h = take n s in
      if n \<le> length s \<and> (if ic then lower h = lower l else h = l)
      then [(i + n, drop n s, g)] else [])"
| "rmatch ic Space st = one_char py_isspace st"
| "rmatch ic Digit st = one_char py_isdigit st"
| "rmatch ic Dot st = one_char (\<lambda>c. c \<noteq> CHR 0x0A) st"
| "rmatch ic (Seq a b) (i, s, g) = concat (map (rmatch ic b) (rmatch ic a (i, s, g)))"
| "rmatch ic (Alt a b) (i, s, g) = rmatch ic a (i, s, g) @ rmatch ic b (i, s, g)"
| "rmatch ic (Opt a) (i, s, g) = rmatch ic a (i, s, g) @ [(i, s, g)]"
| "rmatch ic (Grp k a) (i, s, g) =
     map (\<lambda>(j, t, h). (j, t, (k, take (j - i) s) # h)) (rmatch ic a (i, s, g))"
| "rmatch ic (Plus a) (i, s, g) =
     concat (map (\<lambda>(j, t, h). if length t < length s
                                then rmatch ic (Plus a) (j, t, h) @ [(j, t, h)]
                                else [(j, t, h)])
                 (rmatch ic a (i, s, g)))"
  by pat_completeness auto
termination
  by (relation "measures [\<lambda>(ic, r, st). size r, \<lambda>(ic, r, i, s, g). length s]") auto

text \<open>
  \<open>re.search\<close>: the match at the leftmost position that has one. The result is the
  matched text (\<open>match.group()\<close>) and the captured groups.
\<close>

type_synonym match = "string \<times> (nat \<times> string) list"

fun search_from :: "bool \<Rightarrow> re \<Rightarrow> nat \<Rightarrow> string \<Rightarrow> match option" where
  "search_from ic r i [] =
     (case rmatch ic r (i, [], []) of [] \<Rightarrow> None | (j, t, g) # _ \<Rightarrow> Some ([], g))"
| "search_from ic r i (c # s) =
     (case rmatch ic r (i, c # s, []) of
        [] \<Rightarrow> search_from ic r (Suc i) s
      | (j, t, g) # _ \<Rightarrow> Some (take (j - i) (c # s), g))"

definition re_search :: "bool \<Rightarrow> re \<Rightarrow> string \<Rightarrow> match option" where
  "re_search ic r s = search_from ic r 0 s"

text \<open>\<open>match.group(k)\<close> for a group that took part in the match.\<close>

definition group :: "match \<Rightarrow> nat \<Rightarrow> string" where
  "group m k = (case map_of (snd m) k of Some t \<Rightarrow> t | None \<Rightarrow> [])"

fun cat :: "re list \<Rightarrow> re" where
  "cat [] = Lit []"
| "cat [r] = r"
| "cat (r # rs) = Seq r (cat rs)"

fun alts :: "re list \<Rightarrow> re" where
  "alts [] = Lit []"
| "alts [r] = r"
| "alts (r # rs) = Alt r (alts rs)"


section \<open>Intent mapping (app/services/intent\_mapping.py)\<close>

datatype Intent = ADD | LIST | GET | UPDATE | DELETE | COMPLETE | UNKNOWN

record intent_config =
  "keywords" :: "string list"
  patterns :: "re list"

text \<open>
  \<open>IntentMapper.INTENT_PATTERNS\<close>. A Python dict iterates in insertion order, so the
  table is the list of its items in the order of the source.
\<close>

definition INTENT_PATTERNS :: "(Intent \<times> intent_config) list" where
  "INTENT_PATTERNS =
    [(ADD, \<lparr>keywords = [''add'', ''create'', ''new task'', ''add task'', ''create task'',
                          ''remember'', ''make a task'', ''i need to''],
            patterns = [cat [Bol, Lit ''add'', Plus Space],
                        cat [Bol, Lit ''create'', Plus Space],
                        cat [Bol, Lit ''new'', Plus Space, Lit ''task'', Plus Space],
                        cat [Bol, Lit ''remember'', Plus Space],
                        cat [Bol, Lit ''add task''],
                        cat [Bol, Lit ''create task''],
                        cat [Bol, Lit ''i need to '']]\<rparr>),
     (LIST, \<lparr>keywords = [''list'', ''show'', ''all tasks'', ''my tasks'', ''what tasks'',
                           ''tasks do i have'', ''what do i need''],
             patterns = [cat [Bol, Lit ''list'', Plus Space],
                         cat [Bol, Lit ''show'', Plus Space],
                         cat [Bol, Lit ''all'', Plus Space, Lit ''tasks''],
                         cat [Bol, Lit ''my'', Plus Space, Lit ''tasks''],
                         cat [Bol, Lit ''what tasks''],
                         cat [Bol, Lit ''what do i'']]\<rparr>),
     (GET, \<lparr>keywords = [''get'', ''show task'', ''details'', ''tell me about''],
            patterns = [cat [Bol, Lit ''get'', Plus Space],
                        cat [Bol, Lit ''show task''],
                        cat [Bol, Lit ''details'', Plus Space],
                        cat [Bol, Lit ''tell me about'']]\<rparr>),
     (UPDATE, \<lparr>keywords = [''update'', ''edit'', ''change'', ''modify'', ''rename''],
               patterns = [cat [Bol, Lit ''update'', Plus Space],
                           cat [Bol, Lit ''edit'', Plus Space],
                           cat [Bol, Lit ''change'', Plus Space],
                           cat [Bol, Lit ''modify'', Plus Space],
                           cat [Bol, Lit ''rename'', Plus Space]]\<rparr>),
     (DELETE, \<lparr>keywords = [''delete'', ''remove'', ''trash'', ''discard'', ''get rid of''],
               patterns = [cat [Bol, Lit ''delete'', Plus Space],
                           cat [Bol, Lit ''remove'', Plus Space],
                           cat [Bol, Lit ''trash'', Plus Space],
                           cat [Bol, Lit ''discard'', Plus Space],
                           cat [Bol, Lit ''get rid of'']]\<rparr>),
     (COMPLETE, \<lparr>keywords = [''complete'', ''done'', ''finish'', ''check off'', ''mark done'',
                               ''mark as done''],
                 patterns = [cat [Bol, Lit ''complete'', Plus Space],
                             cat [Bol, Lit ''done'', Plus Space, Lit ''with''],
                             cat [Bol, Lit ''finish'', Plus Space],
                             cat [Bol, Lit ''check off''],
                             cat [Bol, Lit ''mark'', Plus Space, Lit ''done''],
                             cat [Bol, Lit ''mark as done'']]\<rparr>)]"

text \<open>
  The two loops of \<open>extract_intent\<close>. Each runs over the items of the table and, inside,
  over the patterns (keywords) of the item, and returns from the function at the first
  hit; \<open>None\<close> is the loop running to its end.
\<close>

fun any_pattern :: "re list \<Rightarrow> string \<Rightarrow> bool" where
  "any_pattern [] message = False"
| "any_pattern (pattern # ps) message =
     (if re_search True pattern message \<noteq> None then True else any_pattern ps message)"

fun any_keyword :: "string list \<Rightarrow> string \<Rightarrow> bool" where
  "any_keyword [] message = False"
| "any_keyword (keyword # ks) message =
     (if contains (lower message) (lower keyword) then True else any_keyword ks message)"

fun pattern_pass :: "(Intent \<times> intent_config) list \<Rightarrow> string \<Rightarrow> Intent option" where
  "pattern_pass [] message = None"
| "pattern_pass ((intent, config) # items) message =
     (if any_pattern (patterns config) message then Some intent
      else pattern_pass items message)"

fun keyword_pass :: "(Intent \<times> intent_config) list \<Rightarrow> string \<Rightarrow> Intent option" where
  "keyword_pass [] message = None"
| "keyword_pass ((intent, config) # items) message =
     (if any_keyword (keywords config) message then Some intent
      else keyword_pass items message)"

text \<open>
  The confidence is a Python float; only the literals \<open>1.0\<close>, \<open>0.7\<close> and \<open>0.0\<close> occur, and
  the only operation on them is the comparison with \<open>0.5\<close>, so they are modelled by the
  reals they denote.
\<close>

definition extract_intent :: "string \<Rightarrow> Intent \<times> real" where
  "extract_intent user_message =
     (let message = lower (strip user_message) in
      case pattern_pass INTENT_PATTERNS message of
        Some intent \<Rightarrow> (intent, 1.0)
      | None \<Rightarrow>
         (case keyword_pass INTENT_PATTERNS message of
            Some intent \<Rightarrow> (intent, 0.7)
          | None \<Rightarrow> (UNKNOWN, 0.0)))"

fun get_tool_name :: "Intent \<Rightarrow> string" where
  "get_tool_name ADD = ''add_task''"
| "get_tool_name LIST = ''list_tasks''"
| "get_tool_name GET = ''get_task''"
| "get_tool_name UPDATE = ''update_task''"
| "get_tool_name DELETE = ''delete_task''"
| "get_tool_name COMPLETE = ''complete_task''"
| "get_tool_name UNKNOWN = ''unknown''"

fun get_fallback_response :: "Intent \<Rightarrow> string" where
  "get_fallback_response ADD = ''I couldn't create that task. Please try again.''"
| "get_fallback_response LIST = ''I couldn't retrieve your tasks. Please try again.''"
| "get_fallback_response GET = ''I couldn't find that task. Please try again.''"
| "get_fallback_response UPDATE = ''I couldn't update that task. Please try again.''"
| "get_fallback_response DELETE = ''I couldn't delete that task. Please try again.''"
| "get_fallback_response COMPLETE = ''I couldn't mark that task. Please try again.''"
| "get_fallback_response UNKNOWN =
     ''I didn't understand your request. You can ask me to create, list, complete, update, or delete tasks.''"

text \<open>
  What it means for a rule of one intent to match a normalized message: one of the
  intent's patterns is found by \<open>re.search\<close>, or one of its keywords occurs in it.
\<close>

definition pattern_matches :: "Intent \<Rightarrow> string \<Rightarrow> bool" where
  "pattern_matches intent message =
     list_ex (\<lambda>(i, config). i = intent \<and>
                list_ex (\<lambda>p. re_search True p message \<noteq> None) (patterns config))
             INTENT_PATTERNS"

definition keyword_matches :: "Intent \<Rightarrow> string \<Rightarrow> bool" where
  "keyword_matches intent message =
     list_ex (\<lambda>(i, config). i = intent \<and>
                list_ex (\<lambda>k. contains message k) (keywords config))
             INTENT_PATTERNS"

definition declaration_order :: "Intent list" where
  "declaration_order = [ADD, LIST, GET, UPDATE, DELETE, COMPLETE]"


section \<open>Values, conversations and messages\<close>

text \<open>
  The values that travel in tool parameters and tool results: \<open>None\<close>, booleans,
  integers, strings, lists and dicts. A \<open>dict\<close> with string keys that the code reads by
  key is a map; a dict nested in a value keeps its items.
\<close>

datatype json = JNone | JBool bool | JInt int | JStr string
  | JList "json list" | JDict "(string \<times> json) list"

type_synonym pydict = "string \<rightharpoonup> json"

text \<open>Python's truth value of an object, as \<open>if x:\<close> tests it.\<close>

fun truthy :: "json \<Rightarrow> bool" where
  "truthy JNone = False"
| "truthy (JBool b) = b"
| "truthy (JInt n) = (n \<noteq> 0)"
| "truthy (JStr s) = (s \<noteq> [])"
| "truthy (JList xs) = (xs \<noteq> [])"
| "truthy (JDict kvs) = (kvs \<noteq> [])"

text \<open>\<open>d.get(k)\<close> is \<open>None\<close> for an absent key.\<close>

definition dict_get :: "pydict \<Rightarrow> string \<Rightarrow> json" where
  "dict_get d k = (case d k of None \<Rightarrow> JNone | Some v \<Rightarrow> v)"

text \<open>
  A UUID is represented by its canonical text, which is what \<open>str()\<close> prints and what
  decides equality. A \<open>datetime\<close> is a point on the UTC time line, counted in
  microseconds; only the order of two of them is used.
\<close>

type_synonym uuid = string
type_synonym datetime = int

text \<open>The rows of the tables \<open>conversations\<close> and \<open>messages\<close> (app/models).\<close>

record Conversation =
  c_id :: uuid
  c_user_id :: string
  c_created_at :: datetime
  c_updated_at :: datetime

record Message =
  m_id :: uuid
  m_conversation_id :: uuid
  m_user_id :: string
  m_sender :: string
  m_content :: string
  m_tool_calls :: "json option"
  m_created_at :: datetime


section \<open>The agent (app/services/agent.py)\<close>

subsection \<open>Parameter extraction\<close>

definition add_patterns :: "re list" where
  "add_patterns =
    [cat [Bol, alts [Lit ''add'', Lit ''create'', Lit ''remember''], Plus Space,
          Grp 1 (Plus Dot), Eol],
     cat [Bol, alts [Lit ''add'', Lit ''create'', Lit ''remember''], Plus Space,
          Lit ''task'', Plus Space, Grp 1 (Plus Dot), Eol],
     cat [Bol, Lit ''new'', Plus Space, Lit ''task'', Plus Space, Grp 1 (Plus Dot), Eol],
     cat [Bol, Lit ''task'', Plus Space, Lit ''to'', Plus Space, Grp 1 (Plus Dot), Eol]]"

text \<open>
  The loop over the patterns: \<open>match\<close> is the first successful search, \<open>None\<close> when the
  loop ends without one.
\<close>

fun first_match :: "re list \<Rightarrow> string \<Rightarrow> match option" where
  "first_match [] s = None"
| "first_match (pattern # ps) s =
     (case re_search False pattern s of
        Some m \<Rightarrow> Some m
      | None \<Rightarrow> first_match ps s)"

text \<open>
  The fallback loop with its \<open>else\<close> clause. A keyword that is found sets the title to
  the text after it; the loop breaks when that title is not empty. When the loop runs to
  its end, the \<open>else\<close> clause sets the title to the placeholder, whatever an earlier
  iteration stored. The result is the title after the loop. The keyword is looked up in
  the lower-cased message and the message itself is cut at the offset found; on the code
  points below \<open>U+0100\<close> \<open>str.lower\<close> keeps every character in its place, so that
  here the offset is one of the message. The next subsection models the branch on wider
  code points, where it is not.
\<close>

fun keyword_fallback :: "string list \<Rightarrow> string \<Rightarrow> string" where
  "keyword_fallback [] user_input = ''Untitled task''"
| "keyword_fallback (keyword # ks) user_input =
     (case find_str (lower user_input) keyword of
        None \<Rightarrow> keyword_fallback ks user_input
      | Some pos \<Rightarrow>
          (let extracted_title = strip (drop (pos + length keyword) user_input) in
           if extracted_title \<noteq> [] then extracted_title
           else keyword_fallback ks user_input))"

definition fallback_keywords :: "string list" where
  "fallback_keywords = [''add'', ''create'', ''remember'', ''task'']"

definition digits_re :: re where
  "digits_re = Plus Digit"

definition update_re :: re where
  "update_re = cat [Opt (Seq (Lit ''task'') (Plus Space)), Grp 1 (Plus Digit), Plus Space,
                    Opt (Seq (Lit ''to'') (Plus Space)), Grp 2 (Plus Dot)]"

text \<open>\<open>if match: params["task_id"] = match.group()\<close>\<close>

definition with_task_id :: "string \<Rightarrow> pydict \<Rightarrow> pydict" where
  "with_task_id user_input params =
     (case re_search False digits_re user_input of
        Some m \<Rightarrow> params(''task_id'' \<mapsto> JStr (fst m))
      | None \<Rightarrow> params)"

fun extract_parameters :: "Intent \<Rightarrow> string \<Rightarrow> string \<Rightarrow> pydict" where
  "extract_parameters ADD user_input user_id =
     (let params = [''user_id'' \<mapsto> JStr user_id] in
      case first_match add_patterns (strip (lower user_input)) of
        Some m \<Rightarrow> params(''title'' \<mapsto> JStr (strip (group m 1)))
      | None \<Rightarrow> params(''title'' \<mapsto> JStr (keyword_fallback fallback_keywords user_input)))"
| "extract_parameters LIST user_input user_id =
     [''user_id'' \<mapsto> JStr user_id,
      ''include_completed'' \<mapsto> JBool (\<not> contains (lower user_input) ''completed'')]"
| "extract_parameters COMPLETE user_input user_id =
     (with_task_id user_input [''user_id'' \<mapsto> JStr user_id])
       (''completed'' \<mapsto> JBool (\<not> contains (lower user_input) ''uncomplete''))"
| "extract_parameters DELETE user_input user_id =
     with_task_id user_input [''user_id'' \<mapsto> JStr user_id]"
| "extract_parameters UPDATE user_input user_id =
     (let params = [''user_id'' \<mapsto> JStr user_id] in
      case re_search False update_re user_input of
        Some m \<Rightarrow> params(''task_id'' \<mapsto> JStr (group m 1),
                          ''title'' \<mapsto> JStr (strip (group m 2)))
      | None \<Rightarrow> params)"
| "extract_parameters GET user_input user_id =
     with_task_id user_input [''user_id'' \<mapsto> JStr user_id]"
| "extract_parameters UNKNOWN user_input user_id = [''user_id'' \<mapsto> JStr user_id]"

text \<open>
  The words of the specification for the fallback, on messages of code points below
  \<open>U+0100\<close>: the text after the first occurrence of a keyword, trimmed; \<open>None\<close> when the
  keyword does not occur in the message. An occurrence is one in any case of the letters,
  found in the lower-cased message, which has its characters at the offsets of the
  message.
\<close>

definition text_after :: "string \<Rightarrow> string \<Rightarrow> string option" where
  "text_after keyword user_input =
     (case find_str (lower user_input) keyword of
        None \<Rightarrow> None
      | Some pos \<Rightarrow> Some (strip (drop (pos + length keyword) user_input)))"

subsection \<open>Parameter extraction on wider code points\<close>

text \<open>
  A message can hold any code point. \<open>str.lower\<close> replaces one code point by one, with a
  single exception in all of Unicode: \<open>U+0130\<close>, the capital I with a dot above, becomes
  the two code points \<open>U+0069 U+0307\<close>. The branch of \<open>_extract_parameters\<close> for the
  intent \<open>ADD\<close> is modelled here a second time, on strings of code points as the numbers
  that \<open>ord\<close> gives, so that a message with that letter can be written. \<open>str.isspace\<close>,
  \<open>\s\<close> and \<open>.\<close> are Python's on every code point; \<open>str.lower\<close> and \<open>\d\<close> are Python's on
  the code points below \<open>U+0180\<close> (Latin-1 and Latin Extended-A) and on \<open>U+0307\<close>.
\<close>

type_synonym ustring = "int list"

text \<open>The code points of a string of the first model, for the literals of the source.\<close>

definition code_points :: "string \<Rightarrow> ustring" where
  "code_points s = map of_char s"

definition isspace_u :: "int \<Rightarrow> bool" where
  "isspace_u c = (c \<in> set [0x09, 0x0A, 0x0B, 0x0C, 0x0D, 0x1C, 0x1D, 0x1E, 0x1F, 0x20,
                             0x85, 0xA0, 0x1680, 0x2000, 0x2001, 0x2002, 0x2003, 0x2004,
                             0x2005, 0x2006, 0x2007, 0x2008, 0x2009, 0x200A, 0x2028, 0x2029,
                             0x202F, 0x205F, 0x3000])"

definition isdecimal_u :: "int \<Rightarrow> bool" where
  "isdecimal_u c = (0x30 \<le> c \<and> c \<le> 0x39)"

text \<open>
  \<open>str.lower\<close> on one code point. Below \<open>U+0100\<close> it is \<open>lower_char\<close>. In Latin
  Extended-A the capital letters are the even code points of \<open>U+0100\<close> to \<open>U+012F\<close>,
  \<open>U+0132\<close> to \<open>U+0137\<close> and \<open>U+014A\<close> to \<open>U+0177\<close> and the odd ones of \<open>U+0139\<close> to
  \<open>U+0148\<close> and \<open>U+0179\<close> to \<open>U+017E\<close>, each followed by its small letter; \<open>U+0178\<close> has
  its small letter at \<open>U+00FF\<close>; \<open>U+0130\<close> becomes two code points.
\<close>

definition lower_cp :: "int \<Rightarrow> ustring" where
  "lower_cp n =
     (if (0x41 \<le> n \<and> n \<le> 0x5A) \<or> (0xC0 \<le> n \<and> n \<le> 0xDE \<and> n \<noteq> 0xD7) then [n + 32]
      else if n = 0x130 then [0x69, 0x307]
      else if n = 0x178 then [0xFF]
      else if ((0x100 \<le> n \<and> n \<le> 0x12F) \<or> (0x132 \<le> n \<and> n \<le> 0x137) \<or>
               (0x14A \<le> n \<and> n \<le> 0x177)) \<and> even n then [n + 1]
      else if ((0x139 \<le> n \<and> n \<le> 0x148) \<or> (0x179 \<le> n \<and> n \<le> 0x17E)) \<and> odd n
      then [n + 1]
      else [n])"

definition lower_u :: "ustring \<Rightarrow> ustring" where
  "lower_u s = concat (map lower_cp s)"

definition strip_u :: "ustring \<Rightarrow> ustring" where
  "strip_u s = rev (dropWhile isspace_u (rev (dropWhile isspace_u s)))"

fun find_u :: "ustring \<Rightarrow> ustring \<Rightarrow> nat option" where
  "find_u [] sub = (if sub = [] then Some 0 else None)"
| "find_u (c # s) sub =
     (if prefix sub (c # s) then Some 0 else map_option Suc (find_u s sub))"

text \<open>
  \<open>re.search\<close> without flags, as the branch calls it: \<open>rmatch\<close> and \<open>search_from\<close> on code
  points, a literal of the pattern standing for its code points.
\<close>

type_synonym ustate = "nat \<times> ustring \<times> (nat \<times> ustring) list"

definition one_cp :: "(int \<Rightarrow> bool) \<Rightarrow> ustate \<Rightarrow> ustate list" where
  "one_cp P st = (case st of (i, s, g) \<Rightarrow>
     (case s of [] \<Rightarrow> [] | c # t \<Rightarrow> if P c then [(Suc i, t, g)] else []))"

function rmatch_u :: "re \<Rightarrow> ustate \<Rightarrow> ustate list" where
  "rmatch_u Bol (i, s, g) = (if i = 0 then [(i, s, g)] else [])"
| "rmatch_u Eol (i, s, g) = (if s = [] \<or> s = [0x0A] then [(i, s, g)] else [])"
| "rmatch_u (Lit l) (i, s, g) =
     (let n = length l in
      if n \<le> length s \<and> take n s = code_points l then [(i + n, drop n s, g)] else [])"
| "rmatch_u Space st = one_cp isspace_u st"
| "rmatch_u Digit st = one_cp isdecimal_u st"
| "rmatch_u Dot st = one_cp (\<lambda>c. c \<noteq> 0x0A) st"
| "rmatch_u (Seq a b) (i, s, g) = concat (map (rmatch_u b) (rmatch_u a (i, s, g)))"
| "rmatch_u (Alt a b) (i, s, g) = rmatch_u a (i, s, g) @ rmatch_u b (i, s, g)"
| "rmatch_u (Opt a) (i, s, g) = rmatch_u a (i, s, g) @ [(i, s, g)]"
| "rmatch_u (Grp k a) (i, s, g) =
     map (\<lambda>(j, t, h). (j, t, (k, take (j - i) s) # h)) (rmatch_u a (i, s, g))"
| "rmatch_u (Plus a) (i, s, g) =
     concat (map (\<lambda>(j, t, h). if length t < length s
                                then rmatch_u (Plus a) (j, t, h) @ [(j, t, h)]
                                else [(j, t, h)])
                 (rmatch_u a (i, s, g)))"
  by pat_completeness auto
termination
  by (relation "measures [\<lambda>(r, st). size r, \<lambda>(r, i, s, g). length s]") auto

type_synonym umatch = "ustring \<times> (nat \<times> ustring) list"

fun search_from_u :: "re \<Rightarrow> nat \<Rightarrow> ustring \<Rightarrow> umatch option" where
  "search_from_u r i [] =
     (case rmatch_u r (i, [], []) of [] \<Rightarrow> None | (j, t, g) # _ \<Rightarrow> Some ([], g))"
| "search_from_u r i (c # s) =
     (case rmatch_u r (i, c # s, []) of
        [] \<Rightarrow> search_from_u r (Suc i) s
      | (j, t, g) # _ \<Rightarrow> Some (take (j - i) (c # s), g))"

definition re_search_u :: "re \<Rightarrow> ustring \<Rightarrow> umatch option" where
  "re_search_u r s = search_from_u r 0 s"

definition group_u :: "umatch \<Rightarrow> nat \<Rightarrow> ustring" where
  "group_u m k = (case map_of (snd m) k of Some t \<Rightarrow> t | None \<Rightarrow> [])"

fun first_match_u :: "re list \<Rightarrow> ustring \<Rightarrow> umatch option" where
  "first_match_u [] s = None"
| "first_match_u (pattern # ps) s =
     (case re_search_u pattern s of
        Some m \<Rightarrow> Some m
      | None \<Rightarrow> first_match_u ps s)"

text \<open>
  The fallback loop: \<open>pos = user_input.lower().find(keyword)\<close> and then
  \<open>user_input[pos + len(keyword):].strip()\<close>, the offset of the lower-cased message
  applied to the message.
\<close>

fun keyword_fallback_u :: "string list \<Rightarrow> ustring \<Rightarrow> ustring" where
  "keyword_fallback_u [] user_input = code_points ''Untitled task''"
| "keyword_fallback_u (keyword # ks) user_input =
     (case find_u (lower_u user_input) (code_points keyword) of
        None \<Rightarrow> keyword_fallback_u ks user_input
      | Some pos \<Rightarrow>
          (let extracted_title = strip_u (drop (pos + length keyword) user_input) in
           if extracted_title \<noteq> [] then extracted_title
           else keyword_fallback_u ks user_input))"

text \<open>The branch for \<open>ADD\<close>; both values of the dict are strings.\<close>

definition extract_parameters_ADD_u :: "ustring \<Rightarrow> ustring \<Rightarrow> (string \<rightharpoonup> ustring)" where
  "extract_parameters_ADD_u user_input user_id =
     (let params = [''user_id'' \<mapsto> user_id] in
      case first_match_u add_patterns (strip_u (lower_u user_input)) of
        Some m \<Rightarrow> params(''title'' \<mapsto> strip_u (group_u m 1))
      | None \<Rightarrow> params(''title'' \<mapsto> keyword_fallback_u fallback_keywords user_input))"

subsection \<open>Tool invocation\<close>

text \<open>
  The Task Store as \<open>_invoke_tool\<close> sees it: constructing \<open>TaskMCPServer()\<close> and calling
  one of its six methods either returns a dict or raises; \<open>Inl\<close> carries the text of the
  exception.
\<close>

record task_server =
  on_add_task :: "pydict \<Rightarrow> string + pydict"
  on_list_tasks :: "pydict \<Rightarrow> string + pydict"
  on_get_task :: "pydict \<Rightarrow> string + pydict"
  on_update_task :: "pydict \<Rightarrow> string + pydict"
  on_delete_task :: "pydict \<Rightarrow> string + pydict"
  on_complete_task :: "pydict \<Rightarrow> string + pydict"

definition invoke_tool ::
  "(string + task_server) \<Rightarrow> string \<Rightarrow> pydict \<Rightarrow> string \<Rightarrow> uuid \<Rightarrow> pydict" where
  "invoke_tool new_server tool_name params user_id conversation_id =
     (let outcome =
        (case new_server of
           Inl e \<Rightarrow> Inl e
         | Inr server \<Rightarrow>
            (let args = params(''user_id'' \<mapsto> JStr user_id) in
             if tool_name = ''add_task'' then on_add_task server args
             else if tool_name = ''list_tasks'' then on_list_tasks server args
             else if tool_name = ''get_task'' then on_get_task server args
             else if tool_name = ''update_task'' then on_update_task server args
             else if tool_name = ''delete_task'' then on_delete_task server args
             else if tool_name = ''complete_task'' then on_complete_task server args
             else Inr [''error'' \<mapsto> JStr (''Unknown tool: '' @ tool_name)]))
      in case outcome of
           Inr result \<Rightarrow> result
         | Inl e \<Rightarrow> [''error'' \<mapsto> JStr (''Tool execution failed: '' @ e),
                     ''code'' \<mapsto> JInt 500])"

subsection \<open>The decision hierarchy\<close>

record tool_call =
  tool :: string
  parameters :: pydict
  result :: pydict

text \<open>
  What a turn does besides returning: the structured log records and the call of the
  Task Store, in the order in which they happen.
\<close>

datatype event =
    AgentDecision string uuid string real string
  | ToolInvoked string pydict
  | ErrorLogged string uuid string json string json
  | ToolCallLogged string uuid string pydict pydict

definition clarification :: string where
  "clarification =
     ''I didn't understand your request. You can ask me to:'' @ [CHR 0x0A] @
     ''- Create a task (e.g., 'add buy groceries')'' @ [CHR 0x0A] @
     ''- List your tasks (e.g., 'show all tasks')'' @ [CHR 0x0A] @
     ''- Complete a task (e.g., 'mark task 1 done')'' @ [CHR 0x0A] @
     ''- Update a task (e.g., 'change task 1 to buy milk')'' @ [CHR 0x0A] @
     ''- Delete a task (e.g., 'delete task 1')''"

definition enrichment :: pydict where
  "enrichment = [''name'' \<mapsto> JStr ''User'',
                 ''preferences'' \<mapsto> JDict [(''timezone'', JStr ''UTC'')]]"

text \<open>
  \<open>process_message\<close>. Its parameters before the user's identity are the surroundings the
  code reaches for: the Task Store, and \<open>_generate_response\<close>, whose templates format
  the store's result with symbols beyond the 256 code points modelled here; it is a
  function of the same four arguments, and returns a text for every result that the
  store produces. The value is the returned pair and the events of the turn.
\<close>

definition process_message ::
  "(string + task_server) \<Rightarrow> (Intent \<Rightarrow> pydict \<Rightarrow> string \<Rightarrow> pydict \<Rightarrow> string) \<Rightarrow>
   string \<Rightarrow> uuid \<Rightarrow> Message list \<Rightarrow> string \<Rightarrow> bool \<Rightarrow>
   (string \<times> tool_call list) \<times> event list" where
  "process_message new_server generate_response user_id conversation_id messages
                   user_input include_context =
     (case extract_intent user_input of (intent, confidence) \<Rightarrow>
      let decided = [AgentDecision user_id conversation_id (get_tool_name intent)
                       confidence user_input] in
      if intent = UNKNOWN \<or> confidence < 0.5 then ((clarification, []), decided)
      else
        let tool_name = get_tool_name intent;
            params = extract_parameters intent user_input user_id;
            tool_result = invoke_tool new_server tool_name params user_id conversation_id;
            params = params(''user_id'' \<mapsto> JStr user_id);
            invoked = decided @ [ToolInvoked tool_name params];
            user_context =
              (if include_context \<and> dict_get tool_result ''error'' = JNone
               then enrichment else Map.empty)
        in if truthy (dict_get tool_result ''error'')
           then ((get_fallback_response intent, []),
                 invoked @ [ErrorLogged user_id conversation_id ''TOOL_EXECUTION_FAILED''
                              (dict_get tool_result ''error'') tool_name
                              (case tool_result ''code'' of None \<Rightarrow> JInt 500 | Some c \<Rightarrow> c)])
           else ((generate_response intent tool_result user_input user_context,
                  [\<lparr>tool = tool_name, parameters = params, result = tool_result\<rparr>]),
                 invoked @ [ToolCallLogged user_id conversation_id tool_name params
                              tool_result]))"


section \<open>Conversations (app/services/conversation.py)\<close>

text \<open>
  The session's view of the two tables. A row that a function adds and flushes is in the
  view from then on. \<open>uuid4()\<close> and \<open>datetime.utcnow()\<close> are readings of the
  surroundings, so the functions that call them take the values read.
\<close>

record session =
  conversations :: "Conversation list"
  messages :: "Message list"

datatype error = ValueError string | MultipleResultsFound

text \<open>
  \<open>scalar_one_or_none()\<close> returns the only row, \<open>None\<close> when there is no row, and raises
  when there are several. \<open>ORDER BY created_at\<close> sorts ascending; the sort of the model
  keeps rows of equal time in their stored order, where the database is free.
\<close>

definition load_conversation ::
  "session \<Rightarrow> uuid \<Rightarrow> string \<Rightarrow> error + (Conversation \<times> Message list)" where
  "load_conversation session conversation_id user_id =
     (case filter (\<lambda>c. c_id c = conversation_id) (conversations session) of
        [] \<Rightarrow> Inl (ValueError (''Conversation '' @ conversation_id @ '' not found''))
      | [conversation] \<Rightarrow>
          if c_user_id conversation \<noteq> user_id
          then Inl (ValueError ''Access denied: conversation does not belong to user'')
          else Inr (conversation,
                    sort_key m_created_at
                      (filter (\<lambda>m. m_conversation_id m = conversation_id)
                              (messages session)))
      | _ \<Rightarrow> Inl MultipleResultsFound)"

definition create_conversation ::
  "uuid \<Rightarrow> datetime \<Rightarrow> datetime \<Rightarrow> session \<Rightarrow> string \<Rightarrow> Conversation \<times> session" where
  "create_conversation new_id now now' session user_id =
     (let conversation = \<lparr>c_id = new_id, c_user_id = user_id,
                            c_created_at = now, c_updated_at = now'\<rparr>
      in (conversation,
          session\<lparr>conversations := conversations session @ [conversation]\<rparr>))"

definition persist_user_message ::
  "uuid \<Rightarrow> datetime \<Rightarrow> session \<Rightarrow> uuid \<Rightarrow> string \<Rightarrow> string \<Rightarrow> Message \<times> session" where
  "persist_user_message new_id now session conversation_id user_id content =
     (let message = \<lparr>m_id = new_id, m_conversation_id = conversation_id,
                       m_user_id = user_id, m_sender = ''user'', m_content = content,
                       m_tool_calls = None, m_created_at = now\<rparr>
      in (message, session\<lparr>messages := messages session @ [message]\<rparr>))"

definition persist_assistant_message ::
  "uuid \<Rightarrow> datetime \<Rightarrow> session \<Rightarrow> uuid \<Rightarrow> string \<Rightarrow> string \<Rightarrow> json option \<Rightarrow>
   Message \<times> session" where
  "persist_assistant_message new_id now session conversation_id user_id content tool_calls =
     (let message = \<lparr>m_id = new_id, m_conversation_id = conversation_id,
                       m_user_id = user_id, m_sender = ''assistant'', m_content = content,
                       m_tool_calls = tool_calls, m_created_at = now\<rparr>
      in (message, session\<lparr>messages := messages session @ [message]\<rparr>))"


section \<open>The Task Store (mcp\_servers/task\_mcp/main.py)\<close>

text \<open>
  Modelled from the spec: the class \<open>Task\<close> of \<open>app.models\<close>, which is not among the
  sources. Its fields are the seven of the spec's task shape, which are the keys of the
  dict that every tool returns, and the two columns that the second migration adds to
  the table \<open>tasks\<close>.
\<close>

record Task =
  t_id :: int
  t_user_id :: string
  t_title :: string
  t_description :: "string option"
  t_is_completed :: bool
  t_created_at :: datetime
  t_updated_at :: datetime
  t_priority :: "string option"
  t_due_date :: "datetime option"

text \<open>
  \<open>int(s)\<close> for a string: blanks around the number are skipped, a sign may lead, and the
  digits may be grouped by single underscores. \<open>None\<close> is the \<open>ValueError\<close>.
\<close>

definition int_space :: "char \<Rightarrow> bool" where
  "int_space c = (c \<in> set [CHR 0x09, CHR 0x0A, CHR 0x0B, CHR 0x0C, CHR 0x0D, CHR '' '',
                              CHR 0x85, CHR 0xA0])"

fun digit_groups :: "string \<Rightarrow> bool" where
  "digit_groups [] = False"
| "digit_groups [c] = py_isdigit c"
| "digit_groups (c # d # s) =
     (py_isdigit c \<and> (if d = CHR ''_'' then digit_groups s else digit_groups (d # s)))"

definition digits_value :: "string \<Rightarrow> int" where
  "digits_value s = foldl (\<lambda>n c. 10 * n + (int (of_char c) - 48)) 0 (filter py_isdigit s)"

definition py_int :: "string \<Rightarrow> int option" where
  "py_int s =
     (let u = rev (dropWhile int_space (rev (dropWhile int_space s))) in
      case u of
        [] \<Rightarrow> None
      | c # r \<Rightarrow>
          if c = CHR ''-'' then (if digit_groups r then Some (- digits_value r) else None)
          else if c = CHR ''+'' then (if digit_groups r then Some (digits_value r) else None)
          else (if digit_groups u then Some (digits_value u) else None))"

text \<open>
  The arguments of \<open>complete_task\<close> are the keys of the tool's input schema: \<open>user_id\<close>, a
  string; \<open>task_id\<close>, a string, which the agent leaves out when the message holds no
  number; and \<open>completed\<close>, a boolean, absent for its default.
\<close>

record complete_args =
  a_user_id :: string
  a_task_id :: "string option"
  a_completed :: "bool option"

definition failure :: "string \<Rightarrow> int \<Rightarrow> pydict" where
  "failure msg code = [''error'' \<mapsto> JStr msg, ''code'' \<mapsto> JInt code]"

text \<open>The dict of a task; \<open>isoformat\<close> is \<open>datetime.isoformat\<close>.\<close>

definition task_dict :: "(datetime \<Rightarrow> string) \<Rightarrow> Task \<Rightarrow> pydict" where
  "task_dict isoformat task =
     [''id'' \<mapsto> JInt (t_id task),
      ''user_id'' \<mapsto> JStr (t_user_id task),
      ''title'' \<mapsto> JStr (t_title task),
      ''description'' \<mapsto> (case t_description task of None \<Rightarrow> JNone | Some d \<Rightarrow> JStr d),
      ''is_completed'' \<mapsto> JBool (t_is_completed task),
      ''created_at'' \<mapsto> JStr (isoformat (t_created_at task)),
      ''updated_at'' \<mapsto> JStr (isoformat (t_updated_at task))]"

text \<open>
  \<open>complete_task\<close> on the rows of the table \<open>tasks\<close>, at clock reading \<open>now\<close>. The value
  is the returned dict and the rows after the call. \<open>int(None)\<close> raises a \<open>TypeError\<close>
  and several selected rows make \<open>scalar_one_or_none()\<close> raise; both reach the handler
  of \<open>Exception\<close>, whose message ends in the text of the exception. The commit writes
  the changed attributes of the loaded object to the row of its primary key.
\<close>

definition complete_task ::
  "(datetime \<Rightarrow> string) \<Rightarrow> datetime \<Rightarrow> Task list \<Rightarrow> complete_args \<Rightarrow> pydict \<times> Task list" where
  "complete_task isoformat now tasks args =
     (let user_id = a_user_id args;
          completed = (case a_completed args of None \<Rightarrow> True | Some b \<Rightarrow> b) in
      case a_task_id args of
        None \<Rightarrow>
          (failure (''Failed to complete task: int() argument must be a string, '' @
                    ''a bytes-like object or a real number, not 'NoneType'' @ [CHR 0x27])
                   500, tasks)
      | Some task_id \<Rightarrow>
         (case py_int task_id of
            None \<Rightarrow> (failure ''Invalid task ID format'' 400, tasks)
          | Some n \<Rightarrow>
             (case filter (\<lambda>t. t_id t = n \<and> t_user_id t = user_id) tasks of
                [] \<Rightarrow> (failure ''Task not found'' 404, tasks)
              | [task] \<Rightarrow>
                  (let task' = task\<lparr>t_is_completed := completed, t_updated_at := now\<rparr>
                   in (task_dict isoformat task',
                       map (\<lambda>r. if t_id r = t_id task
                                 then r\<lparr>t_is_completed := completed, t_updated_at := now\<rparr>
                                 else r) tasks))
              | _ \<Rightarrow>
                  (failure (''Failed to complete task: '' @
                            ''Multiple rows were found when one or none was required'')
                           500, tasks))))"


section \<open>Properties of the intent mapping\<close>

lemma any_pattern_iff:
  "any_pattern ps message = list_ex (\<lambda>p. re_search True p message \<noteq> None) ps"
  by (induction ps) auto

lemma any_keyword_iff:
  "any_keyword ks message = list_ex (\<lambda>k. contains (lower message) (lower k)) ks"
  by (induction ks) auto

lemma pattern_pass_None:
  "pattern_pass items message = None \<longleftrightarrow>
     (\<forall>(i, config) \<in> set items. \<not> any_pattern (patterns config) message)"
  by (induction items message rule: pattern_pass.induct) auto

lemma keyword_pass_None:
  "keyword_pass items message = None \<longleftrightarrow>
     (\<forall>(i, config) \<in> set items. \<not> any_keyword (keywords config) message)"
  by (induction items message rule: keyword_pass.induct) auto

lemma pattern_pass_Some:
  "pattern_pass items message = Some i \<Longrightarrow>
     \<exists>pre config post. items = pre @ (i, config) # post \<and>
        any_pattern (patterns config) message \<and>
        (\<forall>(j, c) \<in> set pre. \<not> any_pattern (patterns c) message)"
proof (induction items message rule: pattern_pass.induct)
  case (1 message)
  then show ?case by simp
next
  case (2 intent config items message)
  show ?case
  proof (cases "any_pattern (patterns config) message")
    case True
    with 2 have "i = intent" by simp
    with True show ?thesis by (intro exI[of _ "[]"] exI[of _ config] exI[of _ items]) simp
  next
    case False
    with 2 obtain pre cfg post where
      "items = pre @ (i, cfg) # post" "any_pattern (patterns cfg) message"
      "\<forall>(j, c) \<in> set pre. \<not> any_pattern (patterns c) message"
      by auto
    with False show ?thesis
      by (intro exI[of _ "(intent, config) # pre"] exI[of _ cfg] exI[of _ post]) simp
  qed
qed

lemma keyword_pass_Some:
  "keyword_pass items message = Some i \<Longrightarrow>
     \<exists>pre config post. items = pre @ (i, config) # post \<and>
        any_keyword (keywords config) message \<and>
        (\<forall>(j, c) \<in> set pre. \<not> any_keyword (keywords c) message)"
proof (induction items message rule: keyword_pass.induct)
  case (1 message)
  then show ?case by simp
next
  case (2 intent config items message)
  show ?case
  proof (cases "any_keyword (keywords config) message")
    case True
    with 2 have "i = intent" by simp
    with True show ?thesis by (intro exI[of _ "[]"] exI[of _ config] exI[of _ items]) simp
  next
    case False
    with 2 obtain pre cfg post where
      "items = pre @ (i, cfg) # post" "any_keyword (keywords cfg) message"
      "\<forall>(j, c) \<in> set pre. \<not> any_keyword (keywords c) message"
      by auto
    with False show ?thesis
      by (intro exI[of _ "(intent, config) # pre"] exI[of _ cfg] exI[of _ post]) simp
  qed
qed

lemma lower_char_idem: "lower_char (lower_char c) = lower_char c"
  by (auto simp: lower_char_def Let_def)

lemma lower_idem: "lower (lower s) = lower s"
  by (simp add: lower_def lower_char_idem)

lemma table_keywords_lower:
  "\<forall>(i, config) \<in> set INTENT_PATTERNS. \<forall>k \<in> set (keywords config). lower k = k"
  by code_simp

lemma table_intents: "map fst INTENT_PATTERNS = declaration_order"
  by (simp add: INTENT_PATTERNS_def declaration_order_def)

lemma table_distinct: "distinct (map fst INTENT_PATTERNS)"
  by (simp add: table_intents declaration_order_def)

text \<open>With distinct keys, whether some item of an intent satisfies a property is decided by the item of that intent.\<close>

lemma list_ex_keyed:
  "distinct (map fst items) \<Longrightarrow> (i, config) \<in> set items \<Longrightarrow>
     list_ex (\<lambda>(j, c). j = i \<and> Q c) items = Q config"
  unfolding list_ex_iff by (auto dest: eq_key_imp_eq_value)

lemma list_ex_absent:
  "i \<notin> fst ` set items \<Longrightarrow> \<not> list_ex (\<lambda>(j, c). j = i \<and> Q c) items"
  by (induction items) auto

lemma pattern_matches_item:
  "(i, config) \<in> set INTENT_PATTERNS \<Longrightarrow>
     pattern_matches i message = any_pattern (patterns config) message"
  unfolding pattern_matches_def any_pattern_iff
  by (rule list_ex_keyed[OF table_distinct])

lemma keyword_matches_item:
  "(i, config) \<in> set INTENT_PATTERNS \<Longrightarrow>
     keyword_matches i (lower s) = any_keyword (keywords config) (lower s)"
proof -
  assume in_table: "(i, config) \<in> set INTENT_PATTERNS"
  then have "\<forall>k \<in> set (keywords config). lower k = k"
    using table_keywords_lower by blast
  then have "list_ex (\<lambda>k. contains (lower (lower s)) (lower k)) (keywords config)
           = list_ex (\<lambda>k. contains (lower s) k) (keywords config)"
    by (simp add: lower_idem list_ex_iff)
  then show ?thesis
    unfolding keyword_matches_def any_keyword_iff
    using list_ex_keyed[OF table_distinct in_table, of "\<lambda>c. list_ex (\<lambda>k. contains (lower s) k) (keywords c)"]
    by simp
qed

lemma pattern_matches_in_table:
  "pattern_matches i message \<Longrightarrow> \<exists>config. (i, config) \<in> set INTENT_PATTERNS"
  unfolding pattern_matches_def list_ex_iff by auto

lemma keyword_matches_in_table:
  "keyword_matches i message \<Longrightarrow> \<exists>config. (i, config) \<in> set INTENT_PATTERNS"
  unfolding keyword_matches_def list_ex_iff by auto

lemma pattern_pass_None_iff:
  "pattern_pass INTENT_PATTERNS message = None \<longleftrightarrow> (\<forall>i. \<not> pattern_matches i message)"
  unfolding pattern_pass_None
  using pattern_matches_item pattern_matches_in_table by blast

lemma keyword_pass_None_iff:
  "keyword_pass INTENT_PATTERNS (lower s) = None \<longleftrightarrow> (\<forall>i. \<not> keyword_matches i (lower s))"
  unfolding keyword_pass_None
  using keyword_matches_item keyword_matches_in_table by blast

lemma pattern_pass_first:
  assumes "pattern_pass INTENT_PATTERNS message = Some i"
  shows "\<exists>pre post. declaration_order = pre @ i # post \<and> pattern_matches i message \<and>
           (\<forall>j \<in> set pre. \<not> pattern_matches j message)"
proof -
  from pattern_pass_Some[OF assms] obtain pre config post where
    tbl: "INTENT_PATTERNS = pre @ (i, config) # post"
    and hit: "any_pattern (patterns config) message"
    and miss: "\<forall>(j, c) \<in> set pre. \<not> any_pattern (patterns c) message"
    by blast
  have order: "declaration_order = map fst pre @ i # map fst post"
    unfolding table_intents[symmetric] tbl by simp
  have "(i, config) \<in> set INTENT_PATTERNS" unfolding tbl by simp
  then have here: "pattern_matches i message" using hit pattern_matches_item by simp
  have "\<not> pattern_matches j message" if "j \<in> set (map fst pre)" for j
  proof -
    from that obtain c where c: "(j, c) \<in> set pre" by auto
    then have "(j, c) \<in> set INTENT_PATTERNS" unfolding tbl by simp
    then show ?thesis using miss c pattern_matches_item by auto
  qed
  with order here show ?thesis by blast
qed

lemma keyword_pass_first:
  assumes "keyword_pass INTENT_PATTERNS (lower s) = Some i"
  shows "\<exists>pre post. declaration_order = pre @ i # post \<and> keyword_matches i (lower s) \<and>
           (\<forall>j \<in> set pre. \<not> keyword_matches j (lower s))"
proof -
  from keyword_pass_Some[OF assms] obtain pre config post where
    tbl: "INTENT_PATTERNS = pre @ (i, config) # post"
    and hit: "any_keyword (keywords config) (lower s)"
    and miss: "\<forall>(j, c) \<in> set pre. \<not> any_keyword (keywords c) (lower s)"
    by blast
  have order: "declaration_order = map fst pre @ i # map fst post"
    unfolding table_intents[symmetric] tbl by simp
  have "(i, config) \<in> set INTENT_PATTERNS" unfolding tbl by simp
  then have here: "keyword_matches i (lower s)" using hit keyword_matches_item by simp
  have "\<not> keyword_matches j (lower s)" if "j \<in> set (map fst pre)" for j
  proof -
    from that obtain c where c: "(j, c) \<in> set pre" by auto
    then have "(j, c) \<in> set INTENT_PATTERNS" unfolding tbl by simp
    then show ?thesis using miss c keyword_matches_item by auto
  qed
  with order here show ?thesis by blast
qed

lemma pass_not_UNKNOWN:
  "pattern_pass INTENT_PATTERNS message \<noteq> Some UNKNOWN \<and>
   keyword_pass INTENT_PATTERNS message \<noteq> Some UNKNOWN"
proof -
  have absent: "UNKNOWN \<notin> fst ` set INTENT_PATTERNS"
    using table_intents by (metis Intent.distinct(11,21,29,35,39,41) declaration_order_def
        list.set_map set_ConsD empty_iff empty_set)
  have "pattern_pass INTENT_PATTERNS message \<noteq> Some UNKNOWN"
  proof
    assume "pattern_pass INTENT_PATTERNS message = Some UNKNOWN"
    from pattern_pass_Some[OF this] obtain pre config post
      where "INTENT_PATTERNS = pre @ (UNKNOWN, config) # post" by blast
    then have "UNKNOWN \<in> fst ` set INTENT_PATTERNS" by (metis fst_conv image_eqI in_set_conv_decomp)
    with absent show False by simp
  qed
  moreover have "keyword_pass INTENT_PATTERNS message \<noteq> Some UNKNOWN"
  proof
    assume "keyword_pass INTENT_PATTERNS message = Some UNKNOWN"
    from keyword_pass_Some[OF this] obtain pre config post
      where "INTENT_PATTERNS = pre @ (UNKNOWN, config) # post" by blast
    then have "UNKNOWN \<in> fst ` set INTENT_PATTERNS" by (metis fst_conv image_eqI in_set_conv_decomp)
    with absent show False by simp
  qed
  ultimately show ?thesis by simp
qed



lemma extract_intent_cases:
  "extract_intent m =
     (case pattern_pass INTENT_PATTERNS (lower (strip m)) of
        Some intent \<Rightarrow> (intent, 1)
      | None \<Rightarrow>
         (case keyword_pass INTENT_PATTERNS (lower (strip m)) of
            Some intent \<Rightarrow> (intent, 0.7)
          | None \<Rightarrow> (UNKNOWN, 0)))"
  by (simp add: extract_intent_def Let_def split: option.splits)

text \<open>
  C1. \<open>extract_intent\<close> works on the message trimmed and lower-cased. When a pattern of
  some intent matches it, the result is an intent with a matching pattern, at confidence
  1.0. When no pattern of any intent matches and a keyword of some intent occurs in it,
  the result is an intent with such a keyword, at 0.7. When neither holds, the result
  is \<open>(UNKNOWN, 0.0)\<close>. The confidence is one of these three values, and 0.7, the mark
  of the keyword pass, is returned only when no pattern of any intent matched.
\<close>

theorem extract_intent_tiers:
  "((\<exists>i. pattern_matches i (lower (strip m))) \<longrightarrow>
      (\<exists>i. pattern_matches i (lower (strip m)) \<and> extract_intent m = (i, 1.0))) \<and>
   ((\<forall>i. \<not> pattern_matches i (lower (strip m))) \<and>
    (\<exists>i. keyword_matches i (lower (strip m))) \<longrightarrow>
      (\<exists>i. keyword_matches i (lower (strip m)) \<and> extract_intent m = (i, 0.7))) \<and>
   ((\<forall>i. \<not> pattern_matches i (lower (strip m))) \<and>
    (\<forall>i. \<not> keyword_matches i (lower (strip m))) \<longrightarrow>
      extract_intent m = (UNKNOWN, 0.0)) \<and>
   snd (extract_intent m) \<in> {1.0, 0.7, 0.0} \<and>
   (snd (extract_intent m) = 0.7 \<longrightarrow> (\<forall>i. \<not> pattern_matches i (lower (strip m))))"
proof (cases "pattern_pass INTENT_PATTERNS (lower (strip m))")
  case (Some i)
  then have "pattern_matches i (lower (strip m))"
    using pattern_pass_first by blast
  moreover have "extract_intent m = (i, 1)"
    using Some by (simp add: extract_intent_cases)
  ultimately show ?thesis by auto
next
  case None
  then have nopat: "\<forall>i. \<not> pattern_matches i (lower (strip m))"
    by (simp add: pattern_pass_None_iff)
  show ?thesis
  proof (cases "keyword_pass INTENT_PATTERNS (lower (strip m))")
    case (Some i)
    then have "keyword_matches i (lower (strip m))"
      using keyword_pass_first by blast
    moreover have "extract_intent m = (i, 0.7)"
      using None Some by (simp add: extract_intent_cases)
    ultimately show ?thesis using nopat by auto
  next
    case nokw: None
    then have "\<forall>i. \<not> keyword_matches i (lower (strip m))"
      by (simp add: keyword_pass_None_iff)
    moreover have "extract_intent m = (UNKNOWN, 0)"
      using None nokw by (simp add: extract_intent_cases)
    ultimately show ?thesis using nopat by auto
  qed
qed


theorem extract_intent_tiers_witness:
  "pattern_matches ADD (lower (strip ''  Add buy milk '')) \<and>
   (\<exists>i. pattern_matches i (lower (strip ''  Add buy milk '')) \<and>
        extract_intent ''  Add buy milk '' = (i, 1.0)) \<and>
   (\<forall>i. \<not> pattern_matches i (lower (strip ''please SHOW them''))) \<and>
   keyword_matches LIST (lower (strip ''please SHOW them'')) \<and>
   (\<exists>i. keyword_matches i (lower (strip ''please SHOW them'')) \<and>
        extract_intent ''please SHOW them'' = (i, 0.7)) \<and>
   (\<forall>i. \<not> pattern_matches i (lower (strip ''hello''))) \<and>
   (\<forall>i. \<not> keyword_matches i (lower (strip ''hello''))) \<and>
   extract_intent ''hello'' = (UNKNOWN, 0.0)"
proof -
  have a: "pattern_matches ADD (lower (strip ''  Add buy milk ''))"
    by code_simp
  have b: "pattern_pass INTENT_PATTERNS (lower (strip ''please SHOW them'')) = None"
    by code_simp
  have c: "keyword_matches LIST (lower (strip ''please SHOW them''))"
    by code_simp
  have d: "pattern_pass INTENT_PATTERNS (lower (strip ''hello'')) = None"
    by code_simp
  have e: "keyword_pass INTENT_PATTERNS (lower (strip ''hello'')) = None"
    by code_simp
  note b' = b[unfolded pattern_pass_None_iff]
  note d' = d[unfolded pattern_pass_None_iff]
  note e' = e[unfolded keyword_pass_None_iff]
  have a': "\<exists>i. pattern_matches i (lower (strip ''  Add buy milk ''))"
    by (rule exI[where x = ADD]) (rule a)
  have c': "\<exists>i. keyword_matches i (lower (strip ''please SHOW them''))"
    by (rule exI[where x = LIST]) (rule c)
  note t1 = extract_intent_tiers[of "''  Add buy milk ''", THEN conjunct1, THEN mp, OF a']
  note t2 = extract_intent_tiers[of "''please SHOW them''", THEN conjunct2, THEN conjunct1,
      THEN mp, OF conjI[OF b' c']]
  note t3 = extract_intent_tiers[of "''hello''", THEN conjunct2, THEN conjunct2,
      THEN conjunct1, THEN mp, OF conjI[OF d' e']]
  show ?thesis
    by (intro conjI a t1 b' c t2 d' e' t3)
qed

text \<open>
  C3. The table lists the intents in the order Add, List, Get, Update, Delete, Complete,
  and each pass returns the first intent of that order with a match: an intent returned
  at 1.0 has a matching pattern and no intent before it has one; an intent returned at
  0.7 has a keyword in the message and no intent before it has one. A message that
  matches a pattern of Add is answered \<open>(ADD, 1.0)\<close>, whatever keywords it holds.
\<close>

theorem declaration_order_tie_break:
  "map fst INTENT_PATTERNS = [ADD, LIST, GET, UPDATE, DELETE, COMPLETE] \<and>
   (extract_intent m = (i, 1.0) \<longrightarrow>
      (\<exists>pre post. [ADD, LIST, GET, UPDATE, DELETE, COMPLETE] = pre @ i # post \<and>
         pattern_matches i (lower (strip m)) \<and>
         (\<forall>j \<in> set pre. \<not> pattern_matches j (lower (strip m))))) \<and>
   (extract_intent m = (i, 0.7) \<longrightarrow>
      (\<exists>pre post. [ADD, LIST, GET, UPDATE, DELETE, COMPLETE] = pre @ i # post \<and>
         keyword_matches i (lower (strip m)) \<and>
         (\<forall>j \<in> set pre. \<not> keyword_matches j (lower (strip m))))) \<and>
   (pattern_matches ADD (lower (strip m)) \<longrightarrow> extract_intent m = (ADD, 1.0))"
proof (intro conjI impI)
  show "map fst INTENT_PATTERNS = [ADD, LIST, GET, UPDATE, DELETE, COMPLETE]"
    using table_intents by (simp add: declaration_order_def)
next
  assume r: "extract_intent m = (i, 1.0)"
  then have "pattern_pass INTENT_PATTERNS (lower (strip m)) = Some i"
    by (auto simp: extract_intent_cases split: option.splits)
  from pattern_pass_first[OF this]
  show "\<exists>pre post. [ADD, LIST, GET, UPDATE, DELETE, COMPLETE] = pre @ i # post \<and>
         pattern_matches i (lower (strip m)) \<and>
         (\<forall>j \<in> set pre. \<not> pattern_matches j (lower (strip m)))"
    by (simp add: declaration_order_def)
next
  assume r: "extract_intent m = (i, 0.7)"
  then have "keyword_pass INTENT_PATTERNS (lower (strip m)) = Some i"
    by (auto simp: extract_intent_cases split: option.splits)
  from keyword_pass_first[OF this]
  show "\<exists>pre post. [ADD, LIST, GET, UPDATE, DELETE, COMPLETE] = pre @ i # post \<and>
         keyword_matches i (lower (strip m)) \<and>
         (\<forall>j \<in> set pre. \<not> keyword_matches j (lower (strip m)))"
    by (simp add: declaration_order_def)
next
  assume hit: "pattern_matches ADD (lower (strip m))"
  then have "pattern_pass INTENT_PATTERNS (lower (strip m)) \<noteq> None"
    using pattern_pass_None_iff by blast
  then obtain i where i: "pattern_pass INTENT_PATTERNS (lower (strip m)) = Some i"
    by blast
  from pattern_pass_first[OF this] obtain pre post where
    order: "declaration_order = pre @ i # post"
    and miss: "\<forall>j \<in> set pre. \<not> pattern_matches j (lower (strip m))"
    by blast
  have "pre = []"
  proof (cases pre)
    case Nil
    then show ?thesis .
  next
    case (Cons j js)
    with order have "j = ADD" by (simp add: declaration_order_def)
    with Cons miss hit show ?thesis by simp
  qed
  with order have "i = ADD" by (simp add: declaration_order_def)
  with i show "extract_intent m = (ADD, 1.0)" by (simp add: extract_intent_cases)
qed

lemma before_LIST:
  "[ADD, LIST, GET, UPDATE, DELETE, COMPLETE] = pre @ LIST # post \<Longrightarrow> ADD \<in> set pre"
  by (cases pre) auto

theorem declaration_order_tie_break_witness:
  "extract_intent ''show task 1'' = (LIST, 1.0) \<and>
   pattern_matches LIST (lower (strip ''show task 1'')) \<and>
   pattern_matches GET (lower (strip ''show task 1'')) \<and>
   \<not> pattern_matches ADD (lower (strip ''show task 1'')) \<and>
   extract_intent ''show, delete'' = (LIST, 0.7) \<and>
   keyword_matches LIST (lower (strip ''show, delete'')) \<and>
   keyword_matches DELETE (lower (strip ''show, delete'')) \<and>
   \<not> keyword_matches ADD (lower (strip ''show, delete'')) \<and>
   pattern_matches ADD (lower (strip ''add a list'')) \<and>
   keyword_matches LIST (lower (strip ''add a list'')) \<and>
   extract_intent ''add a list'' = (ADD, 1.0)"
proof -
  have a: "pattern_pass INTENT_PATTERNS (lower (strip ''show task 1'')) = Some LIST"
    by code_simp
  have b: "pattern_matches GET (lower (strip ''show task 1''))"
    by code_simp
  have c: "pattern_pass INTENT_PATTERNS (lower (strip ''show, delete'')) = None"
    by code_simp
  have d: "keyword_pass INTENT_PATTERNS (lower (strip ''show, delete'')) = Some LIST"
    by code_simp
  have e: "keyword_matches DELETE (lower (strip ''show, delete''))"
    by code_simp
  have f: "pattern_matches ADD (lower (strip ''add a list''))"
    by code_simp
  have g: "keyword_matches LIST (lower (strip ''add a list''))"
    by code_simp
  have r1: "extract_intent ''show task 1'' = (LIST, 1.0)"
    unfolding extract_intent_cases a by simp
  have r2: "extract_intent ''show, delete'' = (LIST, 0.7)"
    unfolding extract_intent_cases c d by simp
  note r3 = declaration_order_tie_break[of "''add a list''" ADD, THEN conjunct2,
      THEN conjunct2, THEN conjunct2, THEN mp, OF f]
  from declaration_order_tie_break[of "''show task 1''" LIST, THEN conjunct2,
      THEN conjunct1, THEN mp, OF r1]
  obtain pre post where
    p1: "[ADD, LIST, GET, UPDATE, DELETE, COMPLETE] = pre @ LIST # post"
    and p2: "pattern_matches LIST (lower (strip ''show task 1''))"
    and p3: "\<forall>j \<in> set pre. \<not> pattern_matches j (lower (strip ''show task 1''))"
    by blast
  from p3 before_LIST[OF p1]
  have p4: "\<not> pattern_matches ADD (lower (strip ''show task 1''))" by (rule bspec)
  from declaration_order_tie_break[of "''show, delete''" LIST, THEN conjunct2,
      THEN conjunct2, THEN conjunct1, THEN mp, OF r2]
  obtain pre' post' where
    k1: "[ADD, LIST, GET, UPDATE, DELETE, COMPLETE] = pre' @ LIST # post'"
    and k2: "keyword_matches LIST (lower (strip ''show, delete''))"
    and k3: "\<forall>j \<in> set pre'. \<not> keyword_matches j (lower (strip ''show, delete''))"
    by blast
  from k3 before_LIST[OF k1]
  have k4: "\<not> keyword_matches ADD (lower (strip ''show, delete''))" by (rule bspec)
  show ?thesis
    by (intro conjI r1 p2 b p4 r2 k2 e k4 f g r3)
qed


section \<open>Properties of the agent\<close>

lemma extract_intent_shape:
  "extract_intent m = (UNKNOWN, 0) \<or>
   (fst (extract_intent m) \<noteq> UNKNOWN \<and>
    (snd (extract_intent m) = 0.7 \<or> snd (extract_intent m) = 1))"
  using pass_not_UNKNOWN[of "lower (strip m)"]
  by (auto simp: extract_intent_cases split: option.splits)

lemma known_not_low:
  "fst (extract_intent m) \<noteq> UNKNOWN \<Longrightarrow> \<not> snd (extract_intent m) < 0.5"
  using extract_intent_shape[of m] by auto

lemma low_is_unknown:
  "(fst (extract_intent m) = UNKNOWN \<or> snd (extract_intent m) < 0.5) =
   (fst (extract_intent m) = UNKNOWN)"
  using known_not_low by blast

lemma process_message_reject:
  "fst (extract_intent user_input) = UNKNOWN \<Longrightarrow>
   process_message new_server gen user_id conversation_id history user_input include_context =
     ((clarification, []),
      [AgentDecision user_id conversation_id (get_tool_name (fst (extract_intent user_input)))
         (snd (extract_intent user_input)) user_input])"
  by (cases "extract_intent user_input") (simp add: process_message_def Let_def)

lemma with_task_id_user_id:
  "params ''user_id'' = Some v \<Longrightarrow> with_task_id user_input params ''user_id'' = Some v"
  by (simp add: with_task_id_def split: option.splits)

lemma extract_parameters_user_id:
  "extract_parameters intent user_input user_id ''user_id'' = Some (JStr user_id)"
  by (cases intent) (simp_all add: Let_def with_task_id_user_id split: option.splits)

lemma extract_parameters_reseed:
  "(extract_parameters intent user_input user_id)(''user_id'' \<mapsto> JStr user_id) =
   extract_parameters intent user_input user_id"
  using extract_parameters_user_id by (simp add: map_upd_triv)

lemma process_message_failure:
  assumes "fst (extract_intent user_input) \<noteq> UNKNOWN"
    and "truthy (dict_get (invoke_tool new_server (get_tool_name (fst (extract_intent user_input)))
            (extract_parameters (fst (extract_intent user_input)) user_input user_id)
            user_id conversation_id) ''error'')"
  shows "fst (process_message new_server gen user_id conversation_id history user_input
            include_context) =
         (get_fallback_response (fst (extract_intent user_input)), [])"
  using assms known_not_low[OF assms(1)]
  by (cases "extract_intent user_input") (simp add: process_message_def Let_def)

lemma process_message_success:
  assumes "fst (extract_intent user_input) \<noteq> UNKNOWN"
    and "\<not> truthy (dict_get (invoke_tool new_server (get_tool_name (fst (extract_intent user_input)))
            (extract_parameters (fst (extract_intent user_input)) user_input user_id)
            user_id conversation_id) ''error'')"
  shows "snd (fst (process_message new_server gen user_id conversation_id history user_input
            include_context)) =
         [\<lparr>tool = get_tool_name (fst (extract_intent user_input)),
           parameters = extract_parameters (fst (extract_intent user_input)) user_input user_id,
           result = invoke_tool new_server (get_tool_name (fst (extract_intent user_input)))
            (extract_parameters (fst (extract_intent user_input)) user_input user_id)
            user_id conversation_id\<rparr>]"
  using assms known_not_low[OF assms(1)]
  by (cases "extract_intent user_input")
     (simp add: process_message_def Let_def extract_parameters_reseed)

lemma process_message_invokes:
  assumes "fst (extract_intent user_input) \<noteq> UNKNOWN"
  shows "ToolInvoked (get_tool_name (fst (extract_intent user_input)))
           (extract_parameters (fst (extract_intent user_input)) user_input user_id)
         \<in> set (snd (process_message new_server gen user_id conversation_id history user_input
            include_context))"
  using assms known_not_low[OF assms]
  by (cases "extract_intent user_input")
     (simp add: process_message_def Let_def extract_parameters_reseed)

lemma invoke_tool_no_server:
  "truthy (dict_get (invoke_tool (Inl e) tool_name params user_id conversation_id) ''error'')"
  by (simp add: invoke_tool_def dict_get_def)


text \<open>
  C9. An intent other than \<open>UNKNOWN\<close> is returned at confidence 0.7 or 1.0, which is at
  least 0.5, and \<open>UNKNOWN\<close> is returned at 0.0 only. So the test of the rejection branch,
  "the intent is \<open>UNKNOWN\<close> or the confidence is below 0.5", holds exactly when the intent is
  \<open>UNKNOWN\<close>, and a turn calls no tool of the Task Store exactly when the intent of its
  message is \<open>UNKNOWN\<close>.
\<close>

theorem low_confidence_iff_unknown:
  "(fst (extract_intent m) \<noteq> UNKNOWN \<longrightarrow>
      (snd (extract_intent m) = 0.7 \<or> snd (extract_intent m) = 1.0) \<and>
      0.5 \<le> snd (extract_intent m)) \<and>
   (fst (extract_intent m) = UNKNOWN \<longrightarrow> snd (extract_intent m) = 0.0) \<and>
   ((fst (extract_intent m) = UNKNOWN \<or> snd (extract_intent m) < 0.5) =
    (fst (extract_intent m) = UNKNOWN)) \<and>
   ((\<forall>tool_name params. ToolInvoked tool_name params \<notin>
        set (snd (process_message new_server gen user_id conversation_id history m
                    include_context))) =
    (fst (extract_intent m) = UNKNOWN))"
proof -
  have c1: "fst (extract_intent m) \<noteq> UNKNOWN \<longrightarrow>
      (snd (extract_intent m) = 0.7 \<or> snd (extract_intent m) = 1.0) \<and>
      0.5 \<le> snd (extract_intent m)"
    using extract_intent_shape[of m] by auto
  have c2: "fst (extract_intent m) = UNKNOWN \<longrightarrow> snd (extract_intent m) = 0.0"
    using extract_intent_shape[of m] by auto
  have c3: "(fst (extract_intent m) = UNKNOWN \<or> snd (extract_intent m) < 0.5) =
    (fst (extract_intent m) = UNKNOWN)"
    by (rule low_is_unknown)
  have c4: "(\<forall>tool_name params. ToolInvoked tool_name params \<notin>
        set (snd (process_message new_server gen user_id conversation_id history m
                    include_context))) =
    (fst (extract_intent m) = UNKNOWN)"
  proof (cases "fst (extract_intent m) = UNKNOWN")
    case True
    then show ?thesis by (simp add: process_message_reject)
  next
    case False
    from process_message_invokes[OF this] False show ?thesis by blast
  qed
  show ?thesis
    by (rule conjI[OF c1 conjI[OF c2 conjI[OF c3 c4]]])
qed

theorem low_confidence_iff_unknown_witness:
  "fst (extract_intent ''add milk'') \<noteq> UNKNOWN \<and>
   (snd (extract_intent ''add milk'') = 0.7 \<or> snd (extract_intent ''add milk'') = 1.0) \<and>
   0.5 \<le> snd (extract_intent ''add milk'') \<and>
   fst (extract_intent ''hello'') = UNKNOWN \<and>
   snd (extract_intent ''hello'') = 0.0"
proof -
  have a: "pattern_pass INTENT_PATTERNS (lower (strip ''add milk'')) = Some ADD"
    by code_simp
  have b: "pattern_pass INTENT_PATTERNS (lower (strip ''hello'')) = None"
    by code_simp
  have c: "keyword_pass INTENT_PATTERNS (lower (strip ''hello'')) = None"
    by code_simp
  have known: "fst (extract_intent ''add milk'') \<noteq> UNKNOWN"
    unfolding extract_intent_cases a by simp
  have unknown: "fst (extract_intent ''hello'') = UNKNOWN"
    unfolding extract_intent_cases b c by simp
  note k = low_confidence_iff_unknown[of "''add milk''", THEN conjunct1, THEN mp, OF known]
  note u = low_confidence_iff_unknown[of "''hello''", THEN conjunct2, THEN conjunct1,
      THEN mp, OF unknown]
  show ?thesis
    by (intro conjI known k[THEN conjunct1] k[THEN conjunct2] unknown u)
qed

text \<open>
  C5. When the intent of the message is \<open>UNKNOWN\<close> or its confidence is below 0.5,
  \<open>process_message\<close> returns the fixed clarification text with an empty list of tool calls,
  and the only event of the turn is the record of the decision: no tool of the Task Store
  is called. The clarification text names the five supported operations.
\<close>

theorem low_confidence_reject:
  "fst (extract_intent user_input) = UNKNOWN \<or> snd (extract_intent user_input) < 0.5 \<Longrightarrow>
   process_message new_server gen user_id conversation_id history user_input include_context =
     ((clarification, []),
      [AgentDecision user_id conversation_id (get_tool_name (fst (extract_intent user_input)))
         (snd (extract_intent user_input)) user_input]) \<and>
   list_all (contains clarification)
     [''Create a task'', ''List your tasks'', ''Complete a task'', ''Update a task'',
      ''Delete a task'']"
proof
  assume "fst (extract_intent user_input) = UNKNOWN \<or> snd (extract_intent user_input) < 0.5"
  then have "fst (extract_intent user_input) = UNKNOWN"
    unfolding low_is_unknown .
  then show "process_message new_server gen user_id conversation_id history user_input
       include_context =
     ((clarification, []),
      [AgentDecision user_id conversation_id (get_tool_name (fst (extract_intent user_input)))
         (snd (extract_intent user_input)) user_input])"
    by (rule process_message_reject)
next
  show "list_all (contains clarification)
     [''Create a task'', ''List your tasks'', ''Complete a task'', ''Update a task'',
      ''Delete a task'']"
    by code_simp
qed


theorem low_confidence_reject_witness:
  "(fst (extract_intent ''hello'') = UNKNOWN \<or> snd (extract_intent ''hello'') < 0.5) \<and>
   process_message (Inl ''down'') (\<lambda>i r m c. ''ok'') ''u1'' ''c1'' [] ''hello'' True =
     ((clarification, []), [AgentDecision ''u1'' ''c1'' ''unknown'' 0 ''hello''])"
proof -
  have b: "pattern_pass INTENT_PATTERNS (lower (strip ''hello'')) = None"
    by code_simp
  have c: "keyword_pass INTENT_PATTERNS (lower (strip ''hello'')) = None"
    by code_simp
  have ei: "extract_intent ''hello'' = (UNKNOWN, 0)"
    unfolding extract_intent_cases b c by simp
  have h: "fst (extract_intent ''hello'') = UNKNOWN \<or> snd (extract_intent ''hello'') < 0.5"
    unfolding ei by simp
  note r = low_confidence_reject[of "''hello''" "Inl ''down''" "\<lambda>i r m c. ''ok''" "''u1''"
      "''c1''" "[]" True, OF h, THEN conjunct1, unfolded ei fst_conv snd_conv get_tool_name.simps]
  show ?thesis
    by (rule conjI[OF h r])
qed

text \<open>
  C6. The list of tool calls that \<open>process_message\<close> returns has at most one element. When
  the intent is known and the result of the Task Store call has an error entry that counts
  as true, the returned text is the fallback text of the intent and the list is empty; so
  it is when the server cannot even be constructed. When the result has no such entry, the
  list is the single record of the tool's name, the parameters and the result.
\<close>

theorem tool_failure_fallback:
  "length (snd (fst (process_message new_server gen user_id conversation_id history user_input
                       include_context))) \<le> 1 \<and>
   (fst (extract_intent user_input) \<noteq> UNKNOWN \<longrightarrow>
     (truthy (dict_get (invoke_tool new_server (get_tool_name (fst (extract_intent user_input)))
                (extract_parameters (fst (extract_intent user_input)) user_input user_id)
                user_id conversation_id) ''error'') \<longrightarrow>
        fst (process_message new_server gen user_id conversation_id history user_input
               include_context) =
        (get_fallback_response (fst (extract_intent user_input)), [])) \<and>
     (\<not> truthy (dict_get (invoke_tool new_server (get_tool_name (fst (extract_intent user_input)))
                (extract_parameters (fst (extract_intent user_input)) user_input user_id)
                user_id conversation_id) ''error'') \<longrightarrow>
        snd (fst (process_message new_server gen user_id conversation_id history user_input
                    include_context)) =
        [\<lparr>tool = get_tool_name (fst (extract_intent user_input)),
          parameters = extract_parameters (fst (extract_intent user_input)) user_input user_id,
          result = invoke_tool new_server (get_tool_name (fst (extract_intent user_input)))
                (extract_parameters (fst (extract_intent user_input)) user_input user_id)
                user_id conversation_id\<rparr>]) \<and>
     (\<forall>e. new_server = Inl e \<longrightarrow>
        fst (process_message new_server gen user_id conversation_id history user_input
               include_context) =
        (get_fallback_response (fst (extract_intent user_input)), [])))"
proof (cases "fst (extract_intent user_input) = UNKNOWN")
  case True
  then show ?thesis by (simp add: process_message_reject)
next
  case False
  have c1: "truthy (dict_get (invoke_tool new_server (get_tool_name (fst (extract_intent user_input)))
                (extract_parameters (fst (extract_intent user_input)) user_input user_id)
                user_id conversation_id) ''error'') \<longrightarrow>
        fst (process_message new_server gen user_id conversation_id history user_input
               include_context) =
        (get_fallback_response (fst (extract_intent user_input)), [])"
    using process_message_failure[OF False] by blast
  have c2: "\<not> truthy (dict_get (invoke_tool new_server (get_tool_name (fst (extract_intent user_input)))
                (extract_parameters (fst (extract_intent user_input)) user_input user_id)
                user_id conversation_id) ''error'') \<longrightarrow>
        snd (fst (process_message new_server gen user_id conversation_id history user_input
                    include_context)) =
        [\<lparr>tool = get_tool_name (fst (extract_intent user_input)),
          parameters = extract_parameters (fst (extract_intent user_input)) user_input user_id,
          result = invoke_tool new_server (get_tool_name (fst (extract_intent user_input)))
                (extract_parameters (fst (extract_intent user_input)) user_input user_id)
                user_id conversation_id\<rparr>]"
    using process_message_success[OF False] by blast
  have c3: "\<forall>e. new_server = Inl e \<longrightarrow>
        fst (process_message new_server gen user_id conversation_id history user_input
               include_context) =
        (get_fallback_response (fst (extract_intent user_input)), [])"
    using process_message_failure[OF False] invoke_tool_no_server by blast
  have c0: "length (snd (fst (process_message new_server gen user_id conversation_id history
                user_input include_context))) \<le> 1"
    using c1 c2 by (cases "truthy (dict_get (invoke_tool new_server
                (get_tool_name (fst (extract_intent user_input)))
                (extract_parameters (fst (extract_intent user_input)) user_input user_id)
                user_id conversation_id) ''error'')") simp_all
  show ?thesis
    using c0 c1 c2 c3 by blast
qed

theorem tool_failure_fallback_witness:
  "fst (extract_intent ''add milk'') \<noteq> UNKNOWN \<and>
   truthy (dict_get (invoke_tool
       (Inr \<lparr>on_add_task = \<lambda>a. Inr (failure ''Task title cannot be empty'' 400),
             on_list_tasks = \<lambda>a. Inl ''x'', on_get_task = \<lambda>a. Inl ''x'',
             on_update_task = \<lambda>a. Inl ''x'', on_delete_task = \<lambda>a. Inl ''x'',
             on_complete_task = \<lambda>a. Inl ''x''\<rparr>)
       ''add_task'' (extract_parameters ADD ''add milk'' ''u1'') ''u1'' ''c1'') ''error'') \<and>
   fst (process_message
       (Inr \<lparr>on_add_task = \<lambda>a. Inr (failure ''Task title cannot be empty'' 400),
             on_list_tasks = \<lambda>a. Inl ''x'', on_get_task = \<lambda>a. Inl ''x'',
             on_update_task = \<lambda>a. Inl ''x'', on_delete_task = \<lambda>a. Inl ''x'',
             on_complete_task = \<lambda>a. Inl ''x''\<rparr>)
       (\<lambda>i r m c. ''ok'') ''u1'' ''c1'' [] ''add milk'' False) =
     (''I couldn't create that task. Please try again.'', []) \<and>
   \<not> truthy (dict_get (invoke_tool
       (Inr \<lparr>on_add_task = \<lambda>a. Inr [''id'' \<mapsto> JInt 1],
             on_list_tasks = \<lambda>a. Inl ''x'', on_get_task = \<lambda>a. Inl ''x'',
             on_update_task = \<lambda>a. Inl ''x'', on_delete_task = \<lambda>a. Inl ''x'',
             on_complete_task = \<lambda>a. Inl ''x''\<rparr>)
       ''add_task'' (extract_parameters ADD ''add milk'' ''u1'') ''u1'' ''c1'') ''error'') \<and>
   snd (fst (process_message
       (Inr \<lparr>on_add_task = \<lambda>a. Inr [''id'' \<mapsto> JInt 1],
             on_list_tasks = \<lambda>a. Inl ''x'', on_get_task = \<lambda>a. Inl ''x'',
             on_update_task = \<lambda>a. Inl ''x'', on_delete_task = \<lambda>a. Inl ''x'',
             on_complete_task = \<lambda>a. Inl ''x''\<rparr>)
       (\<lambda>i r m c. ''ok'') ''u1'' ''c1'' [] ''add milk'' False)) =
     [\<lparr>tool = ''add_task'', parameters = extract_parameters ADD ''add milk'' ''u1'',
       result = [''id'' \<mapsto> JInt 1]\<rparr>]"
proof -
  have a: "pattern_pass INTENT_PATTERNS (lower (strip ''add milk'')) = Some ADD"
    by code_simp
  have ei: "extract_intent ''add milk'' = (ADD, 1)"
    unfolding extract_intent_cases a by simp
  have known: "fst (extract_intent ''add milk'') \<noteq> UNKNOWN"
    unfolding ei by simp
  have bad: "truthy (dict_get (invoke_tool
       (Inr \<lparr>on_add_task = \<lambda>a. Inr (failure ''Task title cannot be empty'' 400),
             on_list_tasks = \<lambda>a. Inl ''x'', on_get_task = \<lambda>a. Inl ''x'',
             on_update_task = \<lambda>a. Inl ''x'', on_delete_task = \<lambda>a. Inl ''x'',
             on_complete_task = \<lambda>a. Inl ''x''\<rparr>)
       ''add_task'' (extract_parameters ADD ''add milk'' ''u1'') ''u1'' ''c1'') ''error'')"
    by (simp add: invoke_tool_def failure_def dict_get_def)
  have good_result: "invoke_tool
       (Inr \<lparr>on_add_task = \<lambda>a. Inr [''id'' \<mapsto> JInt 1],
             on_list_tasks = \<lambda>a. Inl ''x'', on_get_task = \<lambda>a. Inl ''x'',
             on_update_task = \<lambda>a. Inl ''x'', on_delete_task = \<lambda>a. Inl ''x'',
             on_complete_task = \<lambda>a. Inl ''x''\<rparr>)
       ''add_task'' (extract_parameters ADD ''add milk'' ''u1'') ''u1'' ''c1'' =
       [''id'' \<mapsto> JInt 1]"
    by (simp add: invoke_tool_def)
  have good: "\<not> truthy (dict_get (invoke_tool
       (Inr \<lparr>on_add_task = \<lambda>a. Inr [''id'' \<mapsto> JInt 1],
             on_list_tasks = \<lambda>a. Inl ''x'', on_get_task = \<lambda>a. Inl ''x'',
             on_update_task = \<lambda>a. Inl ''x'', on_delete_task = \<lambda>a. Inl ''x'',
             on_complete_task = \<lambda>a. Inl ''x''\<rparr>)
       ''add_task'' (extract_parameters ADD ''add milk'' ''u1'') ''u1'' ''c1'') ''error'')"
    unfolding good_result by (simp add: dict_get_def)
  note f1 = tool_failure_fallback[where user_input = "''add milk''" and user_id = "''u1''"
      and conversation_id = "''c1''" and history = "[]" and include_context = False
      and gen = "\<lambda>i r m c. ''ok''"
      and new_server = "Inr \<lparr>on_add_task = \<lambda>a. Inr (failure ''Task title cannot be empty'' 400),
             on_list_tasks = \<lambda>a. Inl ''x'', on_get_task = \<lambda>a. Inl ''x'',
             on_update_task = \<lambda>a. Inl ''x'', on_delete_task = \<lambda>a. Inl ''x'',
             on_complete_task = \<lambda>a. Inl ''x''\<rparr>",
      THEN conjunct2, THEN mp, OF known,
      unfolded ei fst_conv get_tool_name.simps get_fallback_response.simps,
      THEN conjunct1, THEN mp, OF bad]
  note f2 = tool_failure_fallback[where user_input = "''add milk''" and user_id = "''u1''"
      and conversation_id = "''c1''" and history = "[]" and include_context = False
      and gen = "\<lambda>i r m c. ''ok''"
      and new_server = "Inr \<lparr>on_add_task = \<lambda>a. Inr [''id'' \<mapsto> JInt 1],
             on_list_tasks = \<lambda>a. Inl ''x'', on_get_task = \<lambda>a. Inl ''x'',
             on_update_task = \<lambda>a. Inl ''x'', on_delete_task = \<lambda>a. Inl ''x'',
             on_complete_task = \<lambda>a. Inl ''x''\<rparr>",
      THEN conjunct2, THEN mp, OF known,
      unfolded ei fst_conv get_tool_name.simps get_fallback_response.simps,
      THEN conjunct2, THEN conjunct1, THEN mp, OF good, unfolded good_result]
  show ?thesis
    by (rule conjI[OF known conjI[OF bad conjI[OF f1 conjI[OF good f2]]]])
qed


section \<open>Properties of the parameter extraction\<close>

lemma first_match_Some:
  "first_match ps s = Some m \<Longrightarrow>
     \<exists>pre p post. ps = pre @ p # post \<and> re_search False p s = Some m \<and>
        (\<forall>q \<in> set pre. re_search False q s = None)"
proof (induction ps)
  case Nil
  then show ?case by simp
next
  case (Cons p ps)
  show ?case
  proof (cases "re_search False p s")
    case None
    with Cons obtain pre p' post where
      "ps = pre @ p' # post" "re_search False p' s = Some m"
      "\<forall>q \<in> set pre. re_search False q s = None"
      by auto
    with None show ?thesis
      by (intro exI[of _ "p # pre"] exI[of _ p'] exI[of _ post]) simp
  next
    case (Some m')
    with Cons.prems have "m' = m" by simp
    with Some show ?thesis
      by (intro exI[of _ "[]"] exI[of _ p] exI[of _ ps]) simp
  qed
qed

lemma keyword_fallback_find:
  "keyword_fallback ks user_input =
     (case find (\<lambda>k. text_after k user_input \<notin> {None, Some []}) ks of
        Some k \<Rightarrow> (case text_after k user_input of Some t \<Rightarrow> t | None \<Rightarrow> [])
      | None \<Rightarrow> ''Untitled task'')"
  by (induction ks) (auto simp: text_after_def Let_def split: option.splits)

lemma add_title_of_match:
  "first_match add_patterns (strip (lower user_input)) = Some m \<Longrightarrow>
   extract_parameters ADD user_input user_id ''title'' = Some (JStr (strip (group m 1)))"
  by (simp add: Let_def)

lemma add_title_of_fallback:
  "first_match add_patterns (strip (lower user_input)) = None \<Longrightarrow>
   extract_parameters ADD user_input user_id ''title'' =
     Some (JStr (keyword_fallback fallback_keywords user_input))"
  by (simp add: Let_def)

lemma add_dom:
  "dom (extract_parameters ADD user_input user_id) = {''user_id'', ''title''}"
  by (auto simp: Let_def split: option.splits if_splits)

lemma add_example_match:
  "map_option (\<lambda>m. strip (group m 1))
     (first_match add_patterns (strip (lower ''add buy milk at the store''))) =
   Some ''buy milk at the store''"
  by code_simp

lemma add_example:
  "extract_parameters ADD ''add buy milk at the store'' user_id =
     [''title'' \<mapsto> JStr ''buy milk at the store'', ''user_id'' \<mapsto> JStr user_id]"
proof -
  from add_example_match obtain m where
    m: "first_match add_patterns (strip (lower ''add buy milk at the store'')) = Some m"
    and t: "strip (group m 1) = ''buy milk at the store''"
    by blast
  show ?thesis
    unfolding extract_parameters.simps Let_def m option.case t
    by (rule ext) simp
qed


declare rmatch.simps(11) [simp del]

text \<open>A match consumes a prefix of the rest of the subject and counts its length.\<close>

lemma one_char_span:
  "(j, t, h) \<in> set (one_char P (i, s, g)) \<Longrightarrow> \<exists>u. s = u @ t \<and> j = i + length u \<and> h = g"
  by (cases s) (auto simp: one_char_def split: if_splits)

lemma rmatch_span:
  "(j, t, h) \<in> set (rmatch ic r (i, s, g)) \<Longrightarrow> \<exists>u. s = u @ t \<and> j = i + length u"
proof (induction ic r "(i, s, g)" arbitrary: i s g j t h rule: rmatch.induct)
  case (1 ic i s g)
  then show ?case by (auto split: if_splits)
next
  case (2 ic i s g)
  then show ?case by (auto split: if_splits)
next
  case (3 ic l i s g)
  then have "t = drop (length l) s" "j = i + length l" "length l \<le> length s"
    by (auto simp: Let_def split: if_splits)
  then show ?case
    by (intro exI[of _ "take (length l) s"]) simp
next
  case (4 ic)
  then show ?case using one_char_span by fastforce
next
  case (5 ic)
  then show ?case using one_char_span by fastforce
next
  case (6 ic)
  then show ?case using one_char_span by fastforce
next
  case (7 ic a b i s g)
  from "7.prems" obtain j' t' h' where
    mid: "(j', t', h') \<in> set (rmatch ic a (i, s, g))"
    and fin: "(j, t, h) \<in> set (rmatch ic b (j', t', h'))"
    by auto
  from "7.hyps"(1)[OF mid] obtain u where u: "s = u @ t'" "j' = i + length u" by blast
  from "7.hyps"(2)[OF mid fin] obtain v where v: "t' = v @ t" "j = j' + length v" by blast
  from u v show ?case by (intro exI[of _ "u @ v"]) simp
next
  case (8 ic a b i s g)
  then show ?case by auto
next
  case (9 ic a i s g)
  then show ?case by auto
next
  case (10 ic k a i s g)
  then show ?case by auto
next
  case (11 ic a i s g)
  from "11.prems" obtain j' t' h' where
    mid: "(j', t', h') \<in> set (rmatch ic a (i, s, g))"
    and fin: "(j, t, h) \<in> set (if length t' < length s
                then rmatch ic (Plus a) (j', t', h') @ [(j', t', h')] else [(j', t', h')])"
    by (subst (asm) rmatch.simps(11)) auto
  from "11.hyps"(1)[OF mid] obtain u where u: "s = u @ t'" "j' = i + length u" by blast
  show ?case
  proof (cases "(j, t, h) = (j', t', h')")
    case True
    with u show ?thesis by auto
  next
    case False
    with fin have shorter: "length t' < length s"
      and more: "(j, t, h) \<in> set (rmatch ic (Plus a) (j', t', h'))"
      by (auto split: if_splits)
    from "11.hyps"(2)[OF mid refl refl shorter more] obtain v where
      v: "t' = v @ t" "j = j' + length v" by auto
    from u v show ?thesis by (intro exI[of _ "u @ v"]) simp
  qed
qed


text \<open>
  An expression that ends in group 1 followed by \<open>$\<close>: the group holds the subject from
  where the group starts to where the match ends, and the match ends at the end of the
  subject or before its last newline.
\<close>

lemma rmatch_Seq_mem:
  "(j, t, h) \<in> set (rmatch ic (Seq a b) (i, s, g)) \<longleftrightarrow>
   (\<exists>j' t' h'. (j', t', h') \<in> set (rmatch ic a (i, s, g)) \<and>
      (j, t, h) \<in> set (rmatch ic b (j', t', h')))"
  by auto

lemma rmatch_Grp_mem:
  "(j, t, h) \<in> set (rmatch ic (Grp k x) (i, s, g)) \<longleftrightarrow>
   (\<exists>h'. h = (k, take (j - i) s) # h' \<and> (j, t, h') \<in> set (rmatch ic x (i, s, g)))"
  by force

lemma rmatch_Eol_mem:
  "(j, t, h) \<in> set (rmatch ic Eol (j', t', h')) \<longleftrightarrow>
   (j = j' \<and> t = t' \<and> h = h' \<and> (t = [] \<or> t = [CHR 0x0A]))"
  by auto

lemma group_to_end:
  assumes "(j, t, h) \<in> set (rmatch ic (Seq (Grp 1 x) Eol) (i, s, g))"
  shows "(t = [] \<or> t = [CHR 0x0A]) \<and> (\<exists>u. s = u @ t \<and> map_of h 1 = Some u)"
proof -
  from assms obtain j' t' h' where
    grp: "(j', t', h') \<in> set (rmatch ic (Grp 1 x) (i, s, g))"
    and eol: "(j, t, h) \<in> set (rmatch ic Eol (j', t', h'))"
    unfolding rmatch_Seq_mem by blast
  from eol have same: "j = j'" "t = t'" "h = h'" and fin: "t = [] \<or> t = [CHR 0x0A]"
    unfolding rmatch_Eol_mem by blast+
  from grp obtain h'' where
    h': "h' = (1, take (j' - i) s) # h''"
    and inner: "(j', t', h'') \<in> set (rmatch ic x (i, s, g))"
    unfolding rmatch_Grp_mem by blast
  from rmatch_span[OF inner] obtain u where u: "s = u @ t'" "j' = i + length u" by blast
  then have "take (j' - i) s = u" by simp
  with h' same u fin show ?thesis by simp
qed

lemma cat_Cons: "rs \<noteq> [] \<Longrightarrow> cat (r # rs) = Seq r (cat rs)"
  by (cases rs) simp_all

lemma cat_group_to_end:
  "(j, t, h) \<in> set (rmatch ic (cat (rs @ [Grp 1 x, Eol])) (i, s, g)) \<Longrightarrow>
   (t = [] \<or> t = [CHR 0x0A]) \<and> (\<exists>v u. s = v @ u @ t \<and> map_of h 1 = Some u)"
proof (induction rs arbitrary: i s g)
  case Nil
  then have "(j, t, h) \<in> set (rmatch ic (Seq (Grp 1 x) Eol) (i, s, g))" by simp
  from group_to_end[OF this] show ?case by (metis append_Nil)
next
  case (Cons r rs)
  then have "(j, t, h) \<in> set (rmatch ic (Seq r (cat (rs @ [Grp 1 x, Eol]))) (i, s, g))"
    by (simp add: cat_Cons)
  then obtain j' t' h' where
    mid: "(j', t', h') \<in> set (rmatch ic r (i, s, g))"
    and fin: "(j, t, h) \<in> set (rmatch ic (cat (rs @ [Grp 1 x, Eol])) (j', t', h'))"
    unfolding rmatch_Seq_mem by blast
  from rmatch_span[OF mid] obtain w where w: "s = w @ t'" by blast
  from Cons.IH[OF fin] obtain v u where
    "t = [] \<or> t = [CHR 0x0A]" "t' = v @ u @ t" "map_of h 1 = Some u"
    by blast
  with w show ?case by (metis append.assoc)
qed

lemma search_from_found:
  "search_from ic r i s = Some m \<Longrightarrow>
     \<exists>pre rest j t. s = pre @ rest \<and> (j, t, snd m) \<in> set (rmatch ic r (i + length pre, rest, []))"
proof (induction ic r i s rule: search_from.induct)
  case (1 ic r i)
  show ?case
  proof (cases "rmatch ic r (i, [], [])")
    case Nil
    with 1 show ?thesis by simp
  next
    case (Cons st sts)
    obtain j t g where st: "st = (j, t, g)" by (cases st)
    with Cons "1.prems" have "snd m = g" by auto
    with Cons st have "(j, t, snd m) \<in> set (rmatch ic r (i + length ([]::string), [], []))"
      by simp
    then show ?thesis
      by (intro exI[of _ "[]"] exI[of _ "[]"] exI[of _ j] exI[of _ t]) simp
  qed
next
  case (2 ic r i c s)
  show ?case
  proof (cases "rmatch ic r (i, c # s, [])")
    case Nil
    with 2 obtain pre rest j t where
      "s = pre @ rest" "(j, t, snd m) \<in> set (rmatch ic r (Suc i + length pre, rest, []))"
      by auto
    then show ?thesis
      by (intro exI[of _ "c # pre"] exI[of _ rest] exI[of _ j] exI[of _ t]) simp
  next
    case (Cons st sts)
    obtain j t g where st: "st = (j, t, g)" by (cases st)
    with Cons "2.prems" have "snd m = g" by auto
    with Cons st have "(j, t, snd m) \<in> set (rmatch ic r (i + length ([]::string), c # s, []))"
      by simp
    then show ?thesis
      by (intro exI[of _ "[]"] exI[of _ "c # s"] exI[of _ j] exI[of _ t]) simp
  qed
qed

lemma strip_last: "strip z = w @ [c] \<Longrightarrow> \<not> py_isspace c"
proof -
  assume a: "strip z = w @ [c]"
  then have "dropWhile py_isspace (rev (lstrip z)) = c # rev w"
    by (metis rev.simps(2) rev_swap rstrip_def strip_def rev_append rev_singleton_conv)
  then show ?thesis
    by (metis hd_dropWhile list.sel(1) list.distinct(1))
qed

lemma add_patterns_shape:
  "p \<in> set add_patterns \<Longrightarrow> \<exists>rs. p = cat (rs @ [Grp 1 (Plus Dot), Eol])"
proof -
  assume "p \<in> set add_patterns"
  then consider
      "p = cat ([Bol, alts [Lit ''add'', Lit ''create'', Lit ''remember''], Plus Space] @
                [Grp 1 (Plus Dot), Eol])"
    | "p = cat ([Bol, alts [Lit ''add'', Lit ''create'', Lit ''remember''], Plus Space,
                 Lit ''task'', Plus Space] @ [Grp 1 (Plus Dot), Eol])"
    | "p = cat ([Bol, Lit ''new'', Plus Space, Lit ''task'', Plus Space] @
                [Grp 1 (Plus Dot), Eol])"
    | "p = cat ([Bol, Lit ''task'', Plus Space, Lit ''to'', Plus Space] @
                [Grp 1 (Plus Dot), Eol])"
    unfolding add_patterns_def by auto
  then show ?thesis by cases blast+
qed

lemma add_group_is_remainder:
  assumes "p \<in> set add_patterns" and "re_search False p (strip z) = Some m"
  shows "suffix (group m 1) (strip z)"
proof -
  from add_patterns_shape[OF assms(1)] obtain rs where
    p: "p = cat (rs @ [Grp 1 (Plus Dot), Eol])" by blast
  from search_from_found[OF assms(2)[unfolded re_search_def]] obtain pre rest j t where
    s: "strip z = pre @ rest"
    and hit: "(j, t, snd m) \<in> set (rmatch False p (0 + length pre, rest, []))"
    by blast
  from cat_group_to_end[OF hit[unfolded p]] obtain v u where
    t: "t = [] \<or> t = [CHR 0x0A]" and rest: "rest = v @ u @ t"
    and u: "map_of (snd m) 1 = Some u"
    by blast
  have g: "group m 1 = u" using u by (simp add: group_def)
  have "t = []"
  proof (rule ccontr)
    assume "t \<noteq> []"
    with t have "t = [CHR 0x0A]" by simp
    with s rest have "strip z = (pre @ v @ u) @ [CHR 0x0A]" by simp
    from strip_last[OF this] show False by (simp add: py_isspace_def)
  qed
  with s rest g have "strip z = (pre @ v) @ group m 1" by simp
  then show ?thesis unfolding suffix_def by blast
qed

text \<open>
  Messages of code points below \<open>U+0100\<close>. For the intent Add the parameters are the
  user's identity and a title, and nothing else. The four patterns are tried in their
  order on the message lower-cased and trimmed; when one matches, the title is the group
  of the first that does, trimmed, and that group is the rest of the lower-cased message
  up to its end. When none matches, the title is the trimmed text after the first of the
  keywords add, create, remember, task, in this order, that occurs in the message with a
  text after it that is not empty; when there is no such keyword the title is the
  placeholder \<open>Untitled task\<close>. The message \<open>add buy milk at the store\<close> gives exactly
  the title \<open>buy milk at the store\<close> and the user's identity.
\<close>

lemma add_title_latin1:
  "extract_parameters ADD user_input user_id ''user_id'' = Some (JStr user_id) \<and>
   dom (extract_parameters ADD user_input user_id) = {''user_id'', ''title''} \<and>
   (\<forall>m. first_match add_patterns (strip (lower user_input)) = Some m \<longrightarrow>
      (\<exists>pre p post. add_patterns = pre @ p # post \<and>
          re_search False p (strip (lower user_input)) = Some m \<and>
          (\<forall>q \<in> set pre. re_search False q (strip (lower user_input)) = None)) \<and>
      suffix (group m 1) (strip (lower user_input)) \<and>
      extract_parameters ADD user_input user_id ''title'' = Some (JStr (strip (group m 1)))) \<and>
   (first_match add_patterns (strip (lower user_input)) = None \<longrightarrow>
      extract_parameters ADD user_input user_id ''title'' =
        Some (JStr (case find (\<lambda>k. text_after k user_input \<notin> {None, Some []})
                              [''add'', ''create'', ''remember'', ''task''] of
                      Some k \<Rightarrow> (case text_after k user_input of Some t \<Rightarrow> t | None \<Rightarrow> [])
                    | None \<Rightarrow> ''Untitled task''))) \<and>
   extract_parameters ADD ''add buy milk at the store'' user_id =
     [''title'' \<mapsto> JStr ''buy milk at the store'', ''user_id'' \<mapsto> JStr user_id]"
proof -
  have c1: "extract_parameters ADD user_input user_id ''user_id'' = Some (JStr user_id)"
    by (rule extract_parameters_user_id)
  have c2: "dom (extract_parameters ADD user_input user_id) = {''user_id'', ''title''}"
    by (rule add_dom)
  have c3: "\<forall>m. first_match add_patterns (strip (lower user_input)) = Some m \<longrightarrow>
      (\<exists>pre p post. add_patterns = pre @ p # post \<and>
          re_search False p (strip (lower user_input)) = Some m \<and>
          (\<forall>q \<in> set pre. re_search False q (strip (lower user_input)) = None)) \<and>
      suffix (group m 1) (strip (lower user_input)) \<and>
      extract_parameters ADD user_input user_id ''title'' = Some (JStr (strip (group m 1)))"
  proof (intro allI impI)
    fix m
    assume m: "first_match add_patterns (strip (lower user_input)) = Some m"
    from first_match_Some[OF m] obtain pre p post where
      first: "add_patterns = pre @ p # post"
        "re_search False p (strip (lower user_input)) = Some m"
        "\<forall>q \<in> set pre. re_search False q (strip (lower user_input)) = None"
      by blast
    have "p \<in> set add_patterns" unfolding first(1) by simp
    from add_group_is_remainder[OF this first(2)]
    have "suffix (group m 1) (strip (lower user_input))" .
    with first add_title_of_match[OF m]
    show "(\<exists>pre p post. add_patterns = pre @ p # post \<and>
          re_search False p (strip (lower user_input)) = Some m \<and>
          (\<forall>q \<in> set pre. re_search False q (strip (lower user_input)) = None)) \<and>
      suffix (group m 1) (strip (lower user_input)) \<and>
      extract_parameters ADD user_input user_id ''title'' = Some (JStr (strip (group m 1)))"
      by blast
  qed
  have c4: "first_match add_patterns (strip (lower user_input)) = None \<longrightarrow>
      extract_parameters ADD user_input user_id ''title'' =
        Some (JStr (case find (\<lambda>k. text_after k user_input \<notin> {None, Some []})
                              [''add'', ''create'', ''remember'', ''task''] of
                      Some k \<Rightarrow> (case text_after k user_input of Some t \<Rightarrow> t | None \<Rightarrow> [])
                    | None \<Rightarrow> ''Untitled task''))"
    using add_title_of_fallback[of user_input user_id]
      keyword_fallback_find[of fallback_keywords user_input]
    unfolding fallback_keywords_def by simp
  have c5: "extract_parameters ADD ''add buy milk at the store'' user_id =
     [''title'' \<mapsto> JStr ''buy milk at the store'', ''user_id'' \<mapsto> JStr user_id]"
    by (rule add_example)
  show ?thesis
    by (rule conjI[OF c1 conjI[OF c2 conjI[OF c3 conjI[OF c4 c5]]]])
qed

lemma add_title_latin1_example:
  "first_match add_patterns (strip (lower '' Create  Buy Milk'')) =
     Some (''create  buy milk'', [(1, ''buy milk'')]) \<and>
   extract_parameters ADD '' Create  Buy Milk'' ''u1'' ''title'' = Some (JStr ''buy milk'') \<and>
   first_match add_patterns (strip (lower ''Please ADD Milk'')) = None \<and>
   extract_parameters ADD ''Please ADD Milk'' ''u1'' ''title'' = Some (JStr ''Milk'') \<and>
   first_match add_patterns (strip (lower ''add'')) = None \<and>
   extract_parameters ADD ''add'' ''u1'' ''title'' = Some (JStr ''Untitled task'')"
proof -
  have a: "first_match add_patterns (strip (lower '' Create  Buy Milk'')) =
     Some (''create  buy milk'', [(1, ''buy milk'')])"
    by code_simp
  have a': "strip (group (''create  buy milk'', [(1, ''buy milk'')]) 1) = ''buy milk''"
    by code_simp
  have b: "first_match add_patterns (strip (lower ''Please ADD Milk'')) = None"
    by code_simp
  have b': "(case find (\<lambda>k. text_after k ''Please ADD Milk'' \<notin> {None, Some []})
                              [''add'', ''create'', ''remember'', ''task''] of
                      Some k \<Rightarrow> (case text_after k ''Please ADD Milk'' of Some t \<Rightarrow> t | None \<Rightarrow> [])
                    | None \<Rightarrow> ''Untitled task'') = ''Milk''"
    by code_simp
  have c: "first_match add_patterns (strip (lower ''add'')) = None"
    by code_simp
  have c': "(case find (\<lambda>k. text_after k ''add'' \<notin> {None, Some []})
                              [''add'', ''create'', ''remember'', ''task''] of
                      Some k \<Rightarrow> (case text_after k ''add'' of Some t \<Rightarrow> t | None \<Rightarrow> [])
                    | None \<Rightarrow> ''Untitled task'') = ''Untitled task''"
    by code_simp
  note t = add_title_latin1[THEN conjunct2, THEN conjunct2]
  note ta = t[of "'' Create  Buy Milk''" "''u1''", THEN conjunct1, THEN spec, THEN mp, OF a,
      THEN conjunct2, THEN conjunct2, unfolded a']
  note tb = t[of "''Please ADD Milk''" "''u1''", THEN conjunct2, THEN conjunct1, THEN mp, OF b,
      unfolded b']
  note tc = t[of "''add''" "''u1''", THEN conjunct2, THEN conjunct1, THEN mp, OF c,
      unfolded c']
  show ?thesis
    by (rule conjI[OF a conjI[OF ta conjI[OF b conjI[OF tb conjI[OF c tc]]]]])
qed


text \<open>The claim's example and a mixed-case message on code points: the two models agree.\<close>

lemma add_example_u:
  "extract_parameters_ADD_u (code_points ''add buy milk at the store'') (code_points ''u1'') =
     [''user_id'' \<mapsto> code_points ''u1'', ''title'' \<mapsto> code_points ''buy milk at the store''] \<and>
   extract_parameters_ADD_u (code_points ''Please ADD Milk'') (code_points ''u1'') =
     [''user_id'' \<mapsto> code_points ''u1'', ''title'' \<mapsto> code_points ''Milk'']"
proof -
  have a: "map_option (\<lambda>m. strip_u (group_u m 1))
             (first_match_u add_patterns
                (strip_u (lower_u (code_points ''add buy milk at the store'')))) =
           Some (code_points ''buy milk at the store'')"
    by code_simp
  then obtain m where
    m: "first_match_u add_patterns
          (strip_u (lower_u (code_points ''add buy milk at the store''))) = Some m"
    and t: "strip_u (group_u m 1) = code_points ''buy milk at the store''"
    by blast
  have b: "first_match_u add_patterns (strip_u (lower_u (code_points ''Please ADD Milk''))) =
           None"
    by code_simp
  have b': "keyword_fallback_u fallback_keywords (code_points ''Please ADD Milk'') =
            code_points ''Milk''"
    by code_simp
  have 1: "extract_parameters_ADD_u (code_points ''add buy milk at the store'')
             (code_points ''u1'') =
           [''user_id'' \<mapsto> code_points ''u1'',
            ''title'' \<mapsto> code_points ''buy milk at the store'']"
    unfolding extract_parameters_ADD_u_def Let_def m option.case t ..
  have 2: "extract_parameters_ADD_u (code_points ''Please ADD Milk'') (code_points ''u1'') =
           [''user_id'' \<mapsto> code_points ''u1'', ''title'' \<mapsto> code_points ''Milk'']"
    unfolding extract_parameters_ADD_u_def Let_def b option.case b' ..
  show ?thesis
    by (rule conjI[OF 1 2])
qed

text \<open>
  C4. The code breaks the claim on a message with the letter \<open>U+0130\<close>. Take the eleven
  code points \<open>U+0130 U+0130\<close> followed by \<open> add milk\<close>, for the intent Add. The
  lower-cased message has thirteen code points, each \<open>U+0130\<close> having become two. No
  pattern matches it, since it does not begin with a command word. The keyword add
  occurs in the message at offset 3, and the trimmed text after it is \<open>milk\<close>, which is
  the title the claim gives. The code finds the keyword in the lower-cased message, at
  offset 5, and cuts the message itself at 5 + 3: the title is \<open>ilk\<close>. With three
  \<open>U+0130\<close> before \<open> add x\<close> the cut falls behind the end of the message, no later
  keyword occurs, and the title is the placeholder \<open>Untitled task\<close> although a text that
  is not empty follows the keyword.
\<close>

theorem add_title_cut_at_lowered_offset:
  "lower_u ([0x130, 0x130] @ code_points '' add milk'') =
     [0x69, 0x307, 0x69, 0x307] @ code_points '' add milk'' \<and>
   first_match_u add_patterns
     (strip_u (lower_u ([0x130, 0x130] @ code_points '' add milk''))) = None \<and>
   find_u ([0x130, 0x130] @ code_points '' add milk'') (code_points ''add'') = Some 3 \<and>
   strip_u (drop (3 + length ''add'') ([0x130, 0x130] @ code_points '' add milk'')) =
     code_points ''milk'' \<and>
   find_u (lower_u ([0x130, 0x130] @ code_points '' add milk'')) (code_points ''add'') =
     Some 5 \<and>
   extract_parameters_ADD_u ([0x130, 0x130] @ code_points '' add milk'') (code_points ''u1'') =
     [''user_id'' \<mapsto> code_points ''u1'', ''title'' \<mapsto> code_points ''ilk''] \<and>
   first_match_u add_patterns
     (strip_u (lower_u ([0x130, 0x130, 0x130] @ code_points '' add x''))) = None \<and>
   strip_u (drop (4 + length ''add'') ([0x130, 0x130, 0x130] @ code_points '' add x'')) =
     code_points ''x'' \<and>
   extract_parameters_ADD_u ([0x130, 0x130, 0x130] @ code_points '' add x'')
     (code_points ''u1'') =
     [''user_id'' \<mapsto> code_points ''u1'', ''title'' \<mapsto> code_points ''Untitled task'']"
proof -
  have low: "lower_u ([0x130, 0x130] @ code_points '' add milk'') =
     [0x69, 0x307, 0x69, 0x307] @ code_points '' add milk''"
    by code_simp
  have none: "first_match_u add_patterns
     (strip_u (lower_u ([0x130, 0x130] @ code_points '' add milk''))) = None"
    by code_simp
  have at3: "find_u ([0x130, 0x130] @ code_points '' add milk'') (code_points ''add'') = Some 3"
    by code_simp
  have milk: "strip_u (drop (3 + length ''add'') ([0x130, 0x130] @ code_points '' add milk'')) =
     code_points ''milk''"
    by code_simp
  have at5: "find_u (lower_u ([0x130, 0x130] @ code_points '' add milk''))
               (code_points ''add'') = Some 5"
    by code_simp
  have ilk: "keyword_fallback_u fallback_keywords ([0x130, 0x130] @ code_points '' add milk'') =
     code_points ''ilk''"
    by code_simp
  have title: "extract_parameters_ADD_u ([0x130, 0x130] @ code_points '' add milk'')
       (code_points ''u1'') =
     [''user_id'' \<mapsto> code_points ''u1'', ''title'' \<mapsto> code_points ''ilk'']"
    unfolding extract_parameters_ADD_u_def Let_def none option.case ilk ..
  have none3: "first_match_u add_patterns
     (strip_u (lower_u ([0x130, 0x130, 0x130] @ code_points '' add x''))) = None"
    by code_simp
  have x: "strip_u (drop (4 + length ''add'') ([0x130, 0x130, 0x130] @ code_points '' add x'')) =
     code_points ''x''"
    by code_simp
  have untitled: "keyword_fallback_u fallback_keywords
       ([0x130, 0x130, 0x130] @ code_points '' add x'') = code_points ''Untitled task''"
    by code_simp
  have title3: "extract_parameters_ADD_u ([0x130, 0x130, 0x130] @ code_points '' add x'')
       (code_points ''u1'') =
     [''user_id'' \<mapsto> code_points ''u1'', ''title'' \<mapsto> code_points ''Untitled task'']"
    unfolding extract_parameters_ADD_u_def Let_def none3 option.case untitled ..
  show ?thesis
    by (rule conjI[OF low conjI[OF none conjI[OF at3 conjI[OF milk conjI[OF at5
          conjI[OF title conjI[OF none3 conjI[OF x title3]]]]]]]])
qed


section \<open>Properties of the conversation store\<close>

lemma filter_key_single:
  "distinct (map f xs) \<Longrightarrow> x \<in> set xs \<Longrightarrow> filter (\<lambda>c. f c = f x) xs = [x]"
proof (induction xs)
  case Nil
  then show ?case by simp
next
  case (Cons y ys)
  show ?case
  proof (cases "y = x")
    case True
    with Cons.prems have "f x \<notin> f ` set ys" by simp
    then have "\<forall>c \<in> set ys. f c \<noteq> f x" by (metis imageI)
    then have "filter (\<lambda>c. f c = f x) ys = []" by (simp add: filter_empty_conv)
    with True show ?thesis by simp
  next
    case False
    with Cons.prems have x: "x \<in> set ys" by simp
    from Cons.prems have "f y \<notin> f ` set ys" by simp
    with x have "f y \<noteq> f x" by (metis imageI)
    note x this
    with Cons show ?thesis by simp
  qed
qed

lemma load_not_found:
  "cid \<notin> c_id ` set (conversations db) \<Longrightarrow>
   load_conversation db cid uid = Inl (ValueError (''Conversation '' @ cid @ '' not found''))"
proof -
  assume "cid \<notin> c_id ` set (conversations db)"
  then have "filter (\<lambda>c. c_id c = cid) (conversations db) = []"
    by (auto simp: filter_empty_conv)
  then show ?thesis by (simp add: load_conversation_def)
qed

lemma load_found:
  assumes "distinct (map c_id (conversations db))" and "conv \<in> set (conversations db)"
  shows "load_conversation db (c_id conv) uid =
     (if c_user_id conv \<noteq> uid
      then Inl (ValueError ''Access denied: conversation does not belong to user'')
      else Inr (conv, sort_key m_created_at
                        (filter (\<lambda>m. m_conversation_id m = c_id conv) (messages db))))"
  using filter_key_single[OF assms] by (simp add: load_conversation_def)

lemma load_Inr:
  assumes "load_conversation db cid uid = Inr (c, msgs)"
  shows "c \<in> set (conversations db) \<and> c_id c = cid \<and> c_user_id c = uid \<and>
         msgs = sort_key m_created_at (filter (\<lambda>m. m_conversation_id m = cid) (messages db))"
proof (cases "filter (\<lambda>c. c_id c = cid) (conversations db)")
  case Nil
  with assms show ?thesis by (simp add: load_conversation_def)
next
  case (Cons x xs)
  with assms have xs: "xs = []"
    by (cases xs) (simp_all add: load_conversation_def)
  with Cons assms have "c_user_id x = uid" "c = x"
    "msgs = sort_key m_created_at (filter (\<lambda>m. m_conversation_id m = cid) (messages db))"
    by (auto simp: load_conversation_def split: if_splits)
  moreover have "x \<in> set (filter (\<lambda>c. c_id c = cid) (conversations db))"
    using Cons by simp
  ultimately show ?thesis by simp
qed

text \<open>
  C7. \<open>load_conversation\<close> fails with the not-found error, a \<open>ValueError\<close> whose text is
  \<open>Conversation\<close>, the identifier, \<open>not found\<close>, when no conversation has the identifier.
  It fails with the access-denied error, a \<open>ValueError\<close> whose text is
  \<open>Access denied: conversation does not belong to user\<close>, when the conversation with the
  identifier belongs to another user; the error holds nothing of the conversation or of
  its messages. A conversation of the caller is returned with all its stored messages in
  ascending order of creation time, and whatever a successful call returns is a stored
  conversation with the identifier asked for, owned by the caller, with exactly its
  messages. The identifiers of the table are distinct, as its primary key has it.
\<close>

theorem load_conversation_guards:
  "(cid \<notin> c_id ` set (conversations db) \<longrightarrow>
      load_conversation db cid uid =
        Inl (ValueError (''Conversation '' @ cid @ '' not found''))) \<and>
   (distinct (map c_id (conversations db)) \<and> conv \<in> set (conversations db) \<and>
    c_id conv = cid \<and> c_user_id conv \<noteq> uid \<longrightarrow>
      load_conversation db cid uid =
        Inl (ValueError ''Access denied: conversation does not belong to user'')) \<and>
   (distinct (map c_id (conversations db)) \<and> conv \<in> set (conversations db) \<and>
    c_id conv = cid \<and> c_user_id conv = uid \<longrightarrow>
      (\<exists>msgs. load_conversation db cid uid = Inr (conv, msgs) \<and>
         sorted (map m_created_at msgs) \<and>
         mset msgs = mset (filter (\<lambda>m. m_conversation_id m = cid) (messages db)))) \<and>
   (\<forall>c msgs. load_conversation db cid uid = Inr (c, msgs) \<longrightarrow>
      c \<in> set (conversations db) \<and> c_id c = cid \<and> c_user_id c = uid \<and>
      sorted (map m_created_at msgs) \<and>
      mset msgs = mset (filter (\<lambda>m. m_conversation_id m = cid) (messages db)))"
proof -
  have c1: "cid \<notin> c_id ` set (conversations db) \<longrightarrow>
      load_conversation db cid uid =
        Inl (ValueError (''Conversation '' @ cid @ '' not found''))"
    using load_not_found by blast
  have c2: "distinct (map c_id (conversations db)) \<and> conv \<in> set (conversations db) \<and>
    c_id conv = cid \<and> c_user_id conv \<noteq> uid \<longrightarrow>
      load_conversation db cid uid =
        Inl (ValueError ''Access denied: conversation does not belong to user'')"
    using load_found[of db conv uid] by auto
  have c3: "distinct (map c_id (conversations db)) \<and> conv \<in> set (conversations db) \<and>
    c_id conv = cid \<and> c_user_id conv = uid \<longrightarrow>
      (\<exists>msgs. load_conversation db cid uid = Inr (conv, msgs) \<and>
         sorted (map m_created_at msgs) \<and>
         mset msgs = mset (filter (\<lambda>m. m_conversation_id m = cid) (messages db)))"
    using load_found[of db conv uid] by auto
  have c4: "\<forall>c msgs. load_conversation db cid uid = Inr (c, msgs) \<longrightarrow>
      c \<in> set (conversations db) \<and> c_id c = cid \<and> c_user_id c = uid \<and>
      sorted (map m_created_at msgs) \<and>
      mset msgs = mset (filter (\<lambda>m. m_conversation_id m = cid) (messages db))"
    using load_Inr[of db cid uid] by auto
  show ?thesis
    by (rule conjI[OF c1 conjI[OF c2 conjI[OF c3 c4]]])
qed


theorem load_conversation_guards_witness:
  "load_conversation
     \<lparr>conversations = [\<lparr>c_id = ''c1'', c_user_id = ''alice'', c_created_at = 1, c_updated_at = 1\<rparr>],
      messages = [\<lparr>m_id = ''m2'', m_conversation_id = ''c1'', m_user_id = ''alice'',
                    m_sender = ''assistant'', m_content = ''ok'', m_tool_calls = None,
                    m_created_at = 3\<rparr>,
                  \<lparr>m_id = ''m1'', m_conversation_id = ''c1'', m_user_id = ''alice'',
                    m_sender = ''user'', m_content = ''hi'', m_tool_calls = None,
                    m_created_at = 2\<rparr>]\<rparr>
     ''c9'' ''alice'' = Inl (ValueError ''Conversation c9 not found'') \<and>
   load_conversation
     \<lparr>conversations = [\<lparr>c_id = ''c1'', c_user_id = ''alice'', c_created_at = 1, c_updated_at = 1\<rparr>],
      messages = [\<lparr>m_id = ''m2'', m_conversation_id = ''c1'', m_user_id = ''alice'',
                    m_sender = ''assistant'', m_content = ''ok'', m_tool_calls = None,
                    m_created_at = 3\<rparr>,
                  \<lparr>m_id = ''m1'', m_conversation_id = ''c1'', m_user_id = ''alice'',
                    m_sender = ''user'', m_content = ''hi'', m_tool_calls = None,
                    m_created_at = 2\<rparr>]\<rparr>
     ''c1'' ''bob'' = Inl (ValueError ''Access denied: conversation does not belong to user'') \<and>
   load_conversation
     \<lparr>conversations = [\<lparr>c_id = ''c1'', c_user_id = ''alice'', c_created_at = 1, c_updated_at = 1\<rparr>],
      messages = [\<lparr>m_id = ''m2'', m_conversation_id = ''c1'', m_user_id = ''alice'',
                    m_sender = ''assistant'', m_content = ''ok'', m_tool_calls = None,
                    m_created_at = 3\<rparr>,
                  \<lparr>m_id = ''m1'', m_conversation_id = ''c1'', m_user_id = ''alice'',
                    m_sender = ''user'', m_content = ''hi'', m_tool_calls = None,
                    m_created_at = 2\<rparr>]\<rparr>
     ''c1'' ''alice'' =
     Inr (\<lparr>c_id = ''c1'', c_user_id = ''alice'', c_created_at = 1, c_updated_at = 1\<rparr>,
          [\<lparr>m_id = ''m1'', m_conversation_id = ''c1'', m_user_id = ''alice'',
            m_sender = ''user'', m_content = ''hi'', m_tool_calls = None, m_created_at = 2\<rparr>,
           \<lparr>m_id = ''m2'', m_conversation_id = ''c1'', m_user_id = ''alice'',
            m_sender = ''assistant'', m_content = ''ok'', m_tool_calls = None,
            m_created_at = 3\<rparr>])"
  (is "load_conversation ?db ''c9'' ''alice'' = ?nf \<and> load_conversation ?db ''c1'' ''bob'' = ?ad \<and>
       load_conversation ?db ''c1'' ''alice'' = Inr (?conv, ?msgs)")
proof -
  have absent: "''c9'' \<notin> c_id ` set (conversations ?db)" by simp
  have present: "distinct (map c_id (conversations ?db)) \<and> ?conv \<in> set (conversations ?db) \<and>
    c_id ?conv = ''c1'' \<and> c_user_id ?conv \<noteq> ''bob''" by simp
  have owned: "distinct (map c_id (conversations ?db)) \<and> ?conv \<in> set (conversations ?db) \<and>
    c_id ?conv = ''c1'' \<and> c_user_id ?conv = ''alice''" by simp
  note g = load_conversation_guards[where db = ?db and conv = ?conv]
  have nf: "load_conversation ?db ''c9'' ''alice'' = ?nf"
    using g[where cid = "''c9''" and uid = "''alice''", THEN conjunct1, THEN mp, OF absent]
    by simp
  note ad = g[where cid = "''c1''" and uid = "''bob''", THEN conjunct2, THEN conjunct1,
      THEN mp, OF present]
  from g[where cid = "''c1''" and uid = "''alice''", THEN conjunct2, THEN conjunct2,
      THEN conjunct1, THEN mp, OF owned]
  obtain msgs where ok: "load_conversation ?db ''c1'' ''alice'' = Inr (?conv, msgs)"
    and srt: "sorted (map m_created_at msgs)"
    and all: "mset msgs = mset (filter (\<lambda>m. m_conversation_id m = ''c1'') (messages ?db))"
    by blast
  have "load_conversation ?db ''c1'' ''alice'' = Inr (?conv, ?msgs)"
    by (simp add: load_conversation_def)
  with nf ad show ?thesis by blast
qed


text \<open>A row that is not older than any row before it stays last when the rows are sorted.\<close>

lemma insort_key_snoc:
  "f y \<le> f x \<Longrightarrow> insort_key f y (zs @ [x]) = insort_key f y zs @ [x]"
  by (induction zs) auto

lemma foldr_insort_key_snoc:
  "\<forall>y \<in> set xs. f y \<le> f x \<Longrightarrow>
   foldr (insort_key f) xs (zs @ [x]) = foldr (insort_key f) xs zs @ [x]"
  by (induction xs) (auto simp: insort_key_snoc)

lemma sort_key_snoc:
  "\<forall>y \<in> set xs. f y \<le> f x \<Longrightarrow> sort_key f (xs @ [x]) = sort_key f xs @ [x]"
  using foldr_insort_key_snoc[of xs f x "[]"] by (simp add: sort_key_def)

text \<open>
  Whatever order a sort gives to rows of equal time, a row that is younger than all
  others is the last of every sorted arrangement.
\<close>

lemma sorted_youngest_last:
  assumes "sorted (map f ms)" and "mset ms = mset xs + {#x#}" and "\<forall>y \<in> set xs. f y < f x"
  shows "\<exists>e. ms = e @ [x] \<and> mset e = mset xs"
proof -
  from assms(2) have "x \<in># mset ms" by simp
  then have "x \<in> set ms" by simp
  then obtain a b where ab: "ms = a @ x # b" by (meson split_list)
  with assms(2) have rest: "mset (a @ b) = mset xs" by simp
  have "b = []"
  proof (rule ccontr)
    assume "b \<noteq> []"
    then obtain z where z: "z \<in> set b" by (meson last_in_set)
    with assms(1) ab have "f x \<le> f z" by (auto simp: sorted_append)
    moreover have "set (a @ b) = set xs" using rest by (rule mset_eq_setD)
    with z have "z \<in> set xs" by auto
    ultimately show False using assms(3) by fastforce
  qed
  with ab rest show ?thesis by simp
qed

lemma persist_user_message_rows:
  "messages (snd (persist_user_message new_id now db cid uid content)) =
     messages db @ [fst (persist_user_message new_id now db cid uid content)] \<and>
   conversations (snd (persist_user_message new_id now db cid uid content)) = conversations db \<and>
   fst (persist_user_message new_id now db cid uid content) =
     \<lparr>m_id = new_id, m_conversation_id = cid, m_user_id = uid, m_sender = ''user'',
      m_content = content, m_tool_calls = None, m_created_at = now\<rparr>"
  by (simp add: persist_user_message_def Let_def)

lemma persist_assistant_message_rows:
  "messages (snd (persist_assistant_message new_id now db cid uid content tool_calls)) =
     messages db @ [fst (persist_assistant_message new_id now db cid uid content tool_calls)] \<and>
   conversations (snd (persist_assistant_message new_id now db cid uid content tool_calls)) =
     conversations db \<and>
   fst (persist_assistant_message new_id now db cid uid content tool_calls) =
     \<lparr>m_id = new_id, m_conversation_id = cid, m_user_id = uid, m_sender = ''assistant'',
      m_content = content, m_tool_calls = tool_calls, m_created_at = now\<rparr>"
  by (simp add: persist_assistant_message_def Let_def)

lemma load_after_append:
  assumes "load_conversation db cid uid = Inr (conv, earlier)"
    and "conversations db' = conversations db"
    and "messages db' = messages db @ [m]"
    and "m_conversation_id m = cid"
    and "\<forall>e \<in> set earlier. m_created_at e \<le> m_created_at m"
  shows "load_conversation db' cid uid = Inr (conv, earlier @ [m])"
proof -
  from load_Inr[OF assms(1)] have
    e: "earlier = sort_key m_created_at (filter (\<lambda>m. m_conversation_id m = cid) (messages db))"
    by simp
  then have "\<forall>y \<in> set (filter (\<lambda>m. m_conversation_id m = cid) (messages db)).
      m_created_at y \<le> m_created_at m"
    using assms(5) by simp
  from sort_key_snoc[OF this] e assms(3,4) have
    "sort_key m_created_at (filter (\<lambda>m. m_conversation_id m = cid) (messages db')) =
     earlier @ [m]"
    by simp
  moreover obtain c where
    "filter (\<lambda>c. c_id c = cid) (conversations db) = [c]"
    using assms(1)
    by (cases "filter (\<lambda>c. c_id c = cid) (conversations db)";
        cases "tl (filter (\<lambda>c. c_id c = cid) (conversations db))")
       (auto simp: load_conversation_def)
  ultimately show ?thesis
    using assms(1,2) by (auto simp: load_conversation_def split: if_splits)
qed


text \<open>
  C8 fails as stated. The conversation \<open>c1\<close> holds an earlier turn, stored with the
  creation times 10 and 11. The next turn is persisted at the clock readings 5 and 6, as
  a process whose clock runs behind reads them. Reloading returns the new two messages
  before the earlier two.
\<close>

theorem reload_order_counterexample:
  "load_conversation
     \<lparr>conversations = [\<lparr>c_id = ''c1'', c_user_id = ''alice'', c_created_at = 9, c_updated_at = 9\<rparr>],
      messages = [\<lparr>m_id = ''e1'', m_conversation_id = ''c1'', m_user_id = ''alice'',
                    m_sender = ''user'', m_content = ''add milk'', m_tool_calls = None,
                    m_created_at = 10\<rparr>,
                  \<lparr>m_id = ''e2'', m_conversation_id = ''c1'', m_user_id = ''alice'',
                    m_sender = ''assistant'', m_content = ''done'', m_tool_calls = None,
                    m_created_at = 11\<rparr>]\<rparr>
     ''c1'' ''alice'' =
     Inr (\<lparr>c_id = ''c1'', c_user_id = ''alice'', c_created_at = 9, c_updated_at = 9\<rparr>,
          [\<lparr>m_id = ''e1'', m_conversation_id = ''c1'', m_user_id = ''alice'',
            m_sender = ''user'', m_content = ''add milk'', m_tool_calls = None,
            m_created_at = 10\<rparr>,
           \<lparr>m_id = ''e2'', m_conversation_id = ''c1'', m_user_id = ''alice'',
            m_sender = ''assistant'', m_content = ''done'', m_tool_calls = None,
            m_created_at = 11\<rparr>]) \<and>
   load_conversation
     (snd (persist_assistant_message ''m2'' 6
        (snd (persist_user_message ''m1'' 5
           \<lparr>conversations = [\<lparr>c_id = ''c1'', c_user_id = ''alice'', c_created_at = 9,
                              c_updated_at = 9\<rparr>],
            messages = [\<lparr>m_id = ''e1'', m_conversation_id = ''c1'', m_user_id = ''alice'',
                          m_sender = ''user'', m_content = ''add milk'', m_tool_calls = None,
                          m_created_at = 10\<rparr>,
                        \<lparr>m_id = ''e2'', m_conversation_id = ''c1'', m_user_id = ''alice'',
                          m_sender = ''assistant'', m_content = ''done'', m_tool_calls = None,
                          m_created_at = 11\<rparr>]\<rparr>
           ''c1'' ''alice'' ''hello''))
        ''c1'' ''alice'' ''what?'' None))
     ''c1'' ''alice'' =
     Inr (\<lparr>c_id = ''c1'', c_user_id = ''alice'', c_created_at = 9, c_updated_at = 9\<rparr>,
          [\<lparr>m_id = ''m1'', m_conversation_id = ''c1'', m_user_id = ''alice'',
            m_sender = ''user'', m_content = ''hello'', m_tool_calls = None,
            m_created_at = 5\<rparr>,
           \<lparr>m_id = ''m2'', m_conversation_id = ''c1'', m_user_id = ''alice'',
            m_sender = ''assistant'', m_content = ''what?'', m_tool_calls = None,
            m_created_at = 6\<rparr>,
           \<lparr>m_id = ''e1'', m_conversation_id = ''c1'', m_user_id = ''alice'',
            m_sender = ''user'', m_content = ''add milk'', m_tool_calls = None,
            m_created_at = 10\<rparr>,
           \<lparr>m_id = ''e2'', m_conversation_id = ''c1'', m_user_id = ''alice'',
            m_sender = ''assistant'', m_content = ''done'', m_tool_calls = None,
            m_created_at = 11\<rparr>])"
  by (simp add: load_conversation_def persist_user_message_def persist_assistant_message_def
      Let_def)

text \<open>
  C8, amended. When the clock reading of the user message is later than the creation
  time of every message that the conversation already holds, and the reading of the
  assistant message is later still, then persisting the two messages and reloading
  returns the earlier messages followed by the two, each with the sender, content and
  tool calls it was given. This does not depend on how a sort orders rows of equal time:
  every arrangement of the stored rows of the conversation in ascending order of
  creation time is an arrangement of the earlier messages followed by the two.
\<close>

theorem reload_round_trip:
  assumes "load_conversation db cid uid = Inr (conv, earlier)"
    and "\<forall>e \<in> set earlier. m_created_at e < t1"
    and "t1 < t2"
  shows "load_conversation
           (snd (persist_assistant_message id2 t2
              (snd (persist_user_message id1 t1 db cid uid content1))
              cid uid content2 tool_calls))
           cid uid =
         Inr (conv, earlier @
           [\<lparr>m_id = id1, m_conversation_id = cid, m_user_id = uid, m_sender = ''user'',
             m_content = content1, m_tool_calls = None, m_created_at = t1\<rparr>,
            \<lparr>m_id = id2, m_conversation_id = cid, m_user_id = uid, m_sender = ''assistant'',
             m_content = content2, m_tool_calls = tool_calls, m_created_at = t2\<rparr>]) \<and>
         fst (persist_user_message id1 t1 db cid uid content1) =
           \<lparr>m_id = id1, m_conversation_id = cid, m_user_id = uid, m_sender = ''user'',
            m_content = content1, m_tool_calls = None, m_created_at = t1\<rparr> \<and>
         fst (persist_assistant_message id2 t2
                (snd (persist_user_message id1 t1 db cid uid content1))
                cid uid content2 tool_calls) =
           \<lparr>m_id = id2, m_conversation_id = cid, m_user_id = uid, m_sender = ''assistant'',
            m_content = content2, m_tool_calls = tool_calls, m_created_at = t2\<rparr> \<and>
         (\<forall>ms. mset ms = mset (filter (\<lambda>m. m_conversation_id m = cid)
                    (messages (snd (persist_assistant_message id2 t2
                       (snd (persist_user_message id1 t1 db cid uid content1))
                       cid uid content2 tool_calls)))) \<and>
               sorted (map m_created_at ms) \<longrightarrow>
            (\<exists>e'. mset e' = mset earlier \<and> ms = e' @
               [\<lparr>m_id = id1, m_conversation_id = cid, m_user_id = uid, m_sender = ''user'',
                 m_content = content1, m_tool_calls = None, m_created_at = t1\<rparr>,
                \<lparr>m_id = id2, m_conversation_id = cid, m_user_id = uid,
                 m_sender = ''assistant'', m_content = content2, m_tool_calls = tool_calls,
                 m_created_at = t2\<rparr>]))"
    (is "load_conversation ?db2 cid uid = Inr (conv, earlier @ [?m1, ?m2]) \<and> ?r1 \<and> ?r2 \<and> ?any")
proof -
  let ?db1 = "snd (persist_user_message id1 t1 db cid uid content1)"
  note u = persist_user_message_rows[of id1 t1 db cid uid content1]
  note a = persist_assistant_message_rows[of id2 t2 ?db1 cid uid content2 tool_calls]
  have r1: ?r1 using u by simp
  have r2: ?r2 using a by simp
  have rows1: "messages ?db1 = messages db @ [?m1]" "conversations ?db1 = conversations db"
    using u by simp_all
  have rows2: "messages ?db2 = messages ?db1 @ [?m2]" "conversations ?db2 = conversations ?db1"
    using a by simp_all
  have l1: "load_conversation ?db1 cid uid = Inr (conv, earlier @ [?m1])"
    using assms(2) by (intro load_after_append[OF assms(1) rows1(2) rows1(1)]) auto
  have l2: "load_conversation ?db2 cid uid = Inr (conv, (earlier @ [?m1]) @ [?m2])"
    using assms(2,3) by (intro load_after_append[OF l1 rows2(2) rows2(1)]) auto
  have e: "mset earlier = mset (filter (\<lambda>m. m_conversation_id m = cid) (messages db))"
    using load_Inr[OF assms(1)] by simp
  have any: ?any
  proof (intro allI impI)
    fix ms
    assume ms: "mset ms = mset (filter (\<lambda>m. m_conversation_id m = cid) (messages ?db2)) \<and>
               sorted (map m_created_at ms)"
    then have all: "mset ms = mset (earlier @ [?m1]) + {#?m2#}"
      using rows1(1) rows2(1) e by simp
    have "\<forall>y \<in> set (earlier @ [?m1]). m_created_at y < m_created_at ?m2"
      using assms(2,3) by auto
    from sorted_youngest_last[OF conjunct2[OF ms] all this] obtain e1 where
      e1: "ms = e1 @ [?m2]" "mset e1 = mset (earlier @ [?m1])" by blast
    from ms e1(1) have s1: "sorted (map m_created_at e1)" by (simp add: sorted_append)
    from e1(2) have all1: "mset e1 = mset earlier + {#?m1#}" by simp
    have "\<forall>y \<in> set earlier. m_created_at y < m_created_at ?m1"
      using assms(2) by simp
    from sorted_youngest_last[OF s1 all1 this] obtain e0 where
      "e1 = e0 @ [?m1]" "mset e0 = mset earlier" by blast
    with e1(1) show "\<exists>e'. mset e' = mset earlier \<and> ms = e' @ [?m1, ?m2]" by simp
  qed
  from l2 r1 r2 any show ?thesis by simp
qed

theorem reload_round_trip_witness:
  "load_conversation
     \<lparr>conversations = [\<lparr>c_id = ''c1'', c_user_id = ''alice'', c_created_at = 1, c_updated_at = 1\<rparr>],
      messages = [\<lparr>m_id = ''e1'', m_conversation_id = ''c1'', m_user_id = ''alice'',
                    m_sender = ''user'', m_content = ''add milk'', m_tool_calls = None,
                    m_created_at = 2\<rparr>]\<rparr>
     ''c1'' ''alice'' =
     Inr (\<lparr>c_id = ''c1'', c_user_id = ''alice'', c_created_at = 1, c_updated_at = 1\<rparr>,
          [\<lparr>m_id = ''e1'', m_conversation_id = ''c1'', m_user_id = ''alice'',
            m_sender = ''user'', m_content = ''add milk'', m_tool_calls = None,
            m_created_at = 2\<rparr>]) \<and>
   load_conversation
     (snd (persist_assistant_message ''m2'' 6
        (snd (persist_user_message ''m1'' 5
           \<lparr>conversations = [\<lparr>c_id = ''c1'', c_user_id = ''alice'', c_created_at = 1,
                              c_updated_at = 1\<rparr>],
            messages = [\<lparr>m_id = ''e1'', m_conversation_id = ''c1'', m_user_id = ''alice'',
                          m_sender = ''user'', m_content = ''add milk'', m_tool_calls = None,
                          m_created_at = 2\<rparr>]\<rparr>
           ''c1'' ''alice'' ''hello''))
        ''c1'' ''alice'' ''what?'' None))
     ''c1'' ''alice'' =
     Inr (\<lparr>c_id = ''c1'', c_user_id = ''alice'', c_created_at = 1, c_updated_at = 1\<rparr>,
          [\<lparr>m_id = ''e1'', m_conversation_id = ''c1'', m_user_id = ''alice'',
            m_sender = ''user'', m_content = ''add milk'', m_tool_calls = None,
            m_created_at = 2\<rparr>,
           \<lparr>m_id = ''m1'', m_conversation_id = ''c1'', m_user_id = ''alice'',
            m_sender = ''user'', m_content = ''hello'', m_tool_calls = None,
            m_created_at = 5\<rparr>,
           \<lparr>m_id = ''m2'', m_conversation_id = ''c1'', m_user_id = ''alice'',
            m_sender = ''assistant'', m_content = ''what?'', m_tool_calls = None,
            m_created_at = 6\<rparr>])"
  (is "load_conversation ?db ''c1'' ''alice'' = Inr (?conv, ?earlier) \<and> _")
proof -
  have loaded: "load_conversation ?db ''c1'' ''alice'' = Inr (?conv, ?earlier)"
    by (simp add: load_conversation_def)
  have older: "\<forall>e \<in> set ?earlier. m_created_at e < 5" by simp
  have later: "(5::int) < 6" by simp
  from reload_round_trip[OF loaded older later, of "''m2''" "''m1''" "''hello''" "''what?''" None,
      THEN conjunct1] loaded
  show ?thesis by simp
qed


section \<open>Properties of the Task Store\<close>

lemma failure_has_error: "failure msg code ''error'' \<noteq> None"
  by (simp add: failure_def)

lemma task_dict_no_error: "task_dict isoformat task ''error'' = None"
  by (simp add: task_dict_def)

lemma complete_task_success:
  assumes "complete_task isoformat now tasks args = (outcome, tasks')"
    and "outcome ''error'' = None"
  shows "\<exists>s n task. a_task_id args = Some s \<and> py_int s = Some n \<and>
     filter (\<lambda>t. t_id t = n \<and> t_user_id t = a_user_id args) tasks = [task] \<and>
     outcome = task_dict isoformat
        (task\<lparr>t_is_completed := (case a_completed args of None \<Rightarrow> True | Some b \<Rightarrow> b),
              t_updated_at := now\<rparr>) \<and>
     tasks' = map (\<lambda>r. if t_id r = t_id task
                 then r\<lparr>t_is_completed := (case a_completed args of None \<Rightarrow> True | Some b \<Rightarrow> b),
                        t_updated_at := now\<rparr>
                 else r) tasks"
  using assms
  by (auto simp: complete_task_def Let_def failure_def split: option.splits list.splits)

lemma filter_single_mem:
  "filter P xs = [x] \<Longrightarrow> x \<in> set xs \<and> P x"
proof -
  assume a: "filter P xs = [x]"
  have "x \<in> set (filter P xs)" unfolding a by simp
  then show ?thesis by simp
qed

lemma distinct_key_eq:
  "distinct (map f xs) \<Longrightarrow> x \<in> set xs \<Longrightarrow> y \<in> set xs \<Longrightarrow> f x = f y \<Longrightarrow> x = y"
  by (meson distinct_map inj_onD)

lemma select_own_task:
  assumes "distinct (map t_id rows)" and "task \<in> set rows"
  shows "filter (\<lambda>t. t_id t = t_id task \<and> t_user_id t = t_user_id task) rows = [task]"
proof -
  have "filter (\<lambda>t. t_id t = t_id task \<and> t_user_id t = t_user_id task) rows =
        filter (\<lambda>t. t_user_id t = t_user_id task) (filter (\<lambda>t. t_id t = t_id task) rows)"
    by (simp add: conj_commute)
  also have "\<dots> = filter (\<lambda>t. t_user_id t = t_user_id task) [task]"
    using filter_key_single[OF assms] by simp
  finally show ?thesis by simp
qed

text \<open>
  C10. Let the identifiers of the table be distinct, as its primary key has it, and let a
  call of \<open>complete_task\<close> succeed, that is, return a dict with no error entry. Then
  \<open>task_id\<close> reads as a number, the table holds a task with that identifier owned by the
  given user, and the table after the call has as many rows as before, with the row of
  that task changed in \<open>is_completed\<close>, which is the given value (true when none is
  given), and in \<open>updated_at\<close>, which is the clock reading; its \<open>id\<close>, \<open>user_id\<close>,
  \<open>title\<close>, \<open>description\<close>, \<open>created_at\<close>, \<open>priority\<close> and \<open>due_date\<close> are as before.
  Every row with another identifier or another owner is as before. The returned dict is
  that of the changed task, and it is the same on every table with distinct identifiers
  that holds the task, so that no other row is read.
\<close>

theorem complete_task_frame:
  assumes "distinct (map t_id tasks)"
    and "complete_task isoformat now tasks args = (outcome, tasks')"
    and "outcome ''error'' = None"
  shows "\<exists>s n task. a_task_id args = Some s \<and> py_int s = Some n \<and>
      task \<in> set tasks \<and> t_id task = n \<and> t_user_id task = a_user_id args \<and>
      length tasks' = length tasks \<and>
      (\<forall>k < length tasks.
         (tasks ! k = task \<longrightarrow>
            t_is_completed (tasks' ! k) = (case a_completed args of None \<Rightarrow> True | Some b \<Rightarrow> b) \<and>
            t_updated_at (tasks' ! k) = now \<and>
            t_id (tasks' ! k) = t_id task \<and>
            t_user_id (tasks' ! k) = t_user_id task \<and>
            t_title (tasks' ! k) = t_title task \<and>
            t_description (tasks' ! k) = t_description task \<and>
            t_created_at (tasks' ! k) = t_created_at task \<and>
            t_priority (tasks' ! k) = t_priority task \<and>
            t_due_date (tasks' ! k) = t_due_date task) \<and>
         (t_id (tasks ! k) \<noteq> n \<or> t_user_id (tasks ! k) \<noteq> a_user_id args \<longrightarrow>
            tasks' ! k = tasks ! k)) \<and>
      outcome = task_dict isoformat
        (task\<lparr>t_is_completed := (case a_completed args of None \<Rightarrow> True | Some b \<Rightarrow> b),
              t_updated_at := now\<rparr>) \<and>
      (\<forall>others. distinct (map t_id others) \<and> task \<in> set others \<longrightarrow>
         fst (complete_task isoformat now others args) = outcome)"
proof -
  let ?c = "case a_completed args of None \<Rightarrow> True | Some b \<Rightarrow> b"
  from complete_task_success[OF assms(2,3)] obtain s n task where
    s: "a_task_id args = Some s" and n: "py_int s = Some n"
    and sel: "filter (\<lambda>t. t_id t = n \<and> t_user_id t = a_user_id args) tasks = [task]"
    and out: "outcome = task_dict isoformat (task\<lparr>t_is_completed := ?c, t_updated_at := now\<rparr>)"
    and upd: "tasks' = map (\<lambda>r. if t_id r = t_id task
                 then r\<lparr>t_is_completed := ?c, t_updated_at := now\<rparr> else r) tasks"
    by blast
  from filter_single_mem[OF sel] have
    mem: "task \<in> set tasks" and id: "t_id task = n" and own: "t_user_id task = a_user_id args"
    by simp_all
  have len: "length tasks' = length tasks" using upd by simp
  have frame: "\<forall>k < length tasks.
         (tasks ! k = task \<longrightarrow>
            t_is_completed (tasks' ! k) = ?c \<and>
            t_updated_at (tasks' ! k) = now \<and>
            t_id (tasks' ! k) = t_id task \<and>
            t_user_id (tasks' ! k) = t_user_id task \<and>
            t_title (tasks' ! k) = t_title task \<and>
            t_description (tasks' ! k) = t_description task \<and>
            t_created_at (tasks' ! k) = t_created_at task \<and>
            t_priority (tasks' ! k) = t_priority task \<and>
            t_due_date (tasks' ! k) = t_due_date task) \<and>
         (t_id (tasks ! k) \<noteq> n \<or> t_user_id (tasks ! k) \<noteq> a_user_id args \<longrightarrow>
            tasks' ! k = tasks ! k)"
  proof (intro allI impI)
    fix k
    assume k: "k < length tasks"
    then have at: "tasks' ! k = (if t_id (tasks ! k) = t_id task
                 then (tasks ! k)\<lparr>t_is_completed := ?c, t_updated_at := now\<rparr> else tasks ! k)"
      using upd by simp
    have other: "t_id (tasks ! k) \<noteq> t_id task"
      if "t_id (tasks ! k) \<noteq> n \<or> t_user_id (tasks ! k) \<noteq> a_user_id args"
    proof
      assume same: "t_id (tasks ! k) = t_id task"
      from k have "tasks ! k \<in> set tasks" by simp
      from distinct_key_eq[OF assms(1) this mem same] have "tasks ! k = task" .
      with that id own show False by simp
    qed
    show "(tasks ! k = task \<longrightarrow>
            t_is_completed (tasks' ! k) = ?c \<and>
            t_updated_at (tasks' ! k) = now \<and>
            t_id (tasks' ! k) = t_id task \<and>
            t_user_id (tasks' ! k) = t_user_id task \<and>
            t_title (tasks' ! k) = t_title task \<and>
            t_description (tasks' ! k) = t_description task \<and>
            t_created_at (tasks' ! k) = t_created_at task \<and>
            t_priority (tasks' ! k) = t_priority task \<and>
            t_due_date (tasks' ! k) = t_due_date task) \<and>
         (t_id (tasks ! k) \<noteq> n \<or> t_user_id (tasks ! k) \<noteq> a_user_id args \<longrightarrow>
            tasks' ! k = tasks ! k)"
      using at other by auto
  qed
  have indep: "\<forall>others. distinct (map t_id others) \<and> task \<in> set others \<longrightarrow>
         fst (complete_task isoformat now others args) = outcome"
  proof (intro allI impI)
    fix others
    assume o: "distinct (map t_id others) \<and> task \<in> set others"
    from select_own_task[OF conjunct1[OF o] conjunct2[OF o]] id own
    have "filter (\<lambda>t. t_id t = n \<and> t_user_id t = a_user_id args) others = [task]"
      by simp
    then show "fst (complete_task isoformat now others args) = outcome"
      using s n out by (simp add: complete_task_def Let_def)
  qed
  from s n mem id own len frame out indep show ?thesis by blast
qed

theorem complete_task_frame_witness:
  "distinct (map t_id
     [\<lparr>t_id = 1, t_user_id = ''alice'', t_title = ''milk'', t_description = None,
       t_is_completed = False, t_created_at = 10, t_updated_at = 10, t_priority = None,
       t_due_date = None\<rparr>,
      \<lparr>t_id = 2, t_user_id = ''bob'', t_title = ''rent'', t_description = Some ''due'',
       t_is_completed = False, t_created_at = 20, t_updated_at = 20, t_priority = Some ''high'',
       t_due_date = None\<rparr>]) \<and>
   complete_task (\<lambda>t. ''T'') 50
     [\<lparr>t_id = 1, t_user_id = ''alice'', t_title = ''milk'', t_description = None,
       t_is_completed = False, t_created_at = 10, t_updated_at = 10, t_priority = None,
       t_due_date = None\<rparr>,
      \<lparr>t_id = 2, t_user_id = ''bob'', t_title = ''rent'', t_description = Some ''due'',
       t_is_completed = False, t_created_at = 20, t_updated_at = 20, t_priority = Some ''high'',
       t_due_date = None\<rparr>]
     \<lparr>a_user_id = ''alice'', a_task_id = Some ''1'', a_completed = None\<rparr> =
   (task_dict (\<lambda>t. ''T'')
      \<lparr>t_id = 1, t_user_id = ''alice'', t_title = ''milk'', t_description = None,
       t_is_completed = True, t_created_at = 10, t_updated_at = 50, t_priority = None,
       t_due_date = None\<rparr>,
    [\<lparr>t_id = 1, t_user_id = ''alice'', t_title = ''milk'', t_description = None,
       t_is_completed = True, t_created_at = 10, t_updated_at = 50, t_priority = None,
       t_due_date = None\<rparr>,
      \<lparr>t_id = 2, t_user_id = ''bob'', t_title = ''rent'', t_description = Some ''due'',
       t_is_completed = False, t_created_at = 20, t_updated_at = 20, t_priority = Some ''high'',
       t_due_date = None\<rparr>]) \<and>
   task_dict (\<lambda>t. ''T'')
      \<lparr>t_id = 1, t_user_id = ''alice'', t_title = ''milk'', t_description = None,
       t_is_completed = True, t_created_at = 10, t_updated_at = 50, t_priority = None,
       t_due_date = None\<rparr> ''error'' = None \<and>
   (\<exists>task. t_id task = 1 \<and> t_user_id task = ''alice'' \<and>
      fst (complete_task (\<lambda>t. ''T'') 50 [task]
             \<lparr>a_user_id = ''alice'', a_task_id = Some ''1'', a_completed = None\<rparr>) =
      task_dict (\<lambda>t. ''T'')
        \<lparr>t_id = 1, t_user_id = ''alice'', t_title = ''milk'', t_description = None,
         t_is_completed = True, t_created_at = 10, t_updated_at = 50, t_priority = None,
         t_due_date = None\<rparr>)"
  (is "distinct (map t_id ?tasks) \<and> complete_task ?iso 50 ?tasks ?args = (?out, ?tasks') \<and>
       ?out ''error'' = None \<and> ?indep")
proof -
  have d: "distinct (map t_id ?tasks)" by simp
  have one: "py_int ''1'' = Some 1" by code_simp
  have run: "complete_task ?iso 50 ?tasks ?args = (?out, ?tasks')"
    by (simp add: complete_task_def one Let_def)
  have ok: "?out ''error'' = None" by (simp add: task_dict_def)
  from complete_task_frame[OF d run ok] obtain s n task where
    id: "t_id task = n" and s: "a_task_id ?args = Some s" "py_int s = Some n"
    and own: "t_user_id task = a_user_id ?args"
    and indep: "\<forall>others. distinct (map t_id others) \<and> task \<in> set others \<longrightarrow>
         fst (complete_task ?iso 50 others ?args) = ?out"
    by blast
  from s one have "n = 1" by simp
  moreover have "fst (complete_task ?iso 50 [task] ?args) = ?out"
    using indep[THEN spec, of "[task]"] by simp
  ultimately have ?indep using id own by auto
  with d run ok show ?thesis by blast
qed

end
